theory Spec2Isabelle
  imports Main "HOL-Library.Char_ord"
begin

section \<open>Regular expressions as the validators use them\<close>

text \<open>
  The validators of \<^verbatim>\<open>dome9_api_sdk.py\<close> call \<^verbatim>\<open>re.match(pattern, arg)\<close> with patterns
  of the form \<^verbatim>\<open>^body$\<close>. None of the patterns has a back-reference, a look-around or a
  possessive construct, so Python's backtracking search finds a match exactly when some
  way of reading the body consumes the text up to a position where \<^verbatim>\<open>$\<close> holds. The body
  is embedded as a regular expression over character classes and is decided by its
  derivatives.

  A Python \<^verbatim>\<open>str\<close> is modelled as a \<^typ>\<open>string\<close>: the characters are the code points
  below 256. On these \<^verbatim>\<open>\d\<close> is \<^verbatim>\<open>[0-9]\<close> and \<^verbatim>\<open>\s\<close> is the set
  \<^verbatim>\<open>\t \n \x0b \x0c \r \x1c-\x1f space \x85 \xa0\<close>. (For code points from 256 on, \<^verbatim>\<open>\d\<close> also
  holds of the other Unicode decimal digits; such text is outside this model.)
\<close>

datatype cls_item = Ch char | Rng char char

datatype rexp =
    Zero
  | One
  | Class bool "cls_item list"
  | Times rexp rexp
  | Alt rexp rexp
  | Star rexp

text \<open>\<open>Class True items\<close> is \<^verbatim>\<open>[items]\<close>, \<open>Class False items\<close> is \<^verbatim>\<open>[^items]\<close>.\<close>

fun in_item :: "char \<Rightarrow> cls_item \<Rightarrow> bool" where
  "in_item c (Ch d) = (c = d)"
| "in_item c (Rng lo hi) = ((of_char lo :: nat) \<le> of_char c \<and> (of_char c :: nat) \<le> of_char hi)"

definition in_class :: "bool \<Rightarrow> cls_item list \<Rightarrow> char \<Rightarrow> bool" where
  "in_class pos items c = (list_ex (in_item c) items = pos)"

fun nullable :: "rexp \<Rightarrow> bool" where
  "nullable Zero = False"
| "nullable One = True"
| "nullable (Class pos items) = False"
| "nullable (Times r s) = (nullable r \<and> nullable s)"
| "nullable (Alt r s) = (nullable r \<or> nullable s)"
| "nullable (Star r) = True"

text \<open>Sequence and choice that drop the dead branches a derivative leaves behind.\<close>

fun times :: "rexp \<Rightarrow> rexp \<Rightarrow> rexp" where
  "times Zero s = Zero"
| "times One s = s"
| "times r s = Times r s"

fun alt :: "rexp \<Rightarrow> rexp \<Rightarrow> rexp" where
  "alt Zero s = s"
| "alt r Zero = r"
| "alt r s = Alt r s"

fun deriv :: "char \<Rightarrow> rexp \<Rightarrow> rexp" where
  "deriv c Zero = Zero"
| "deriv c One = Zero"
| "deriv c (Class pos items) = (if in_class pos items c then One else Zero)"
| "deriv c (Times r s) =
     (if nullable r then alt (times (deriv c r) s) (deriv c s) else times (deriv c r) s)"
| "deriv c (Alt r s) = alt (deriv c r) (deriv c s)"
| "deriv c (Star r) = times (deriv c r) (Star r)"

fun derivs :: "string \<Rightarrow> rexp \<Rightarrow> rexp" where
  "derivs [] r = r"
| "derivs (c # cs) r = derivs cs (deriv c r)"

definition matches :: "rexp \<Rightarrow> string \<Rightarrow> bool" where
  "matches r s = nullable (derivs s r)"

text \<open>
  \<^verbatim>\<open>re.match('^body$', s)\<close> without the MULTILINE flag: \<^verbatim>\<open>$\<close> holds at the end of the
  text and also just before a newline that is the last character of the text.
\<close>

definition newline :: char where
  "newline = CHR 0x0A"

definition match_anchored :: "rexp \<Rightarrow> string \<Rightarrow> bool" where
  "match_anchored r s =
     (matches r s \<or> (s \<noteq> [] \<and> last s = newline \<and> matches r (butlast s)))"

subsection \<open>The pattern syntax\<close>

definition chr :: "char \<Rightarrow> rexp" where
  "chr c = Class True [Ch c]"

fun seq :: "rexp list \<Rightarrow> rexp" where
  "seq [] = One"
| "seq [r] = r"
| "seq (r # rs) = Times r (seq rs)"

fun alts :: "rexp list \<Rightarrow> rexp" where
  "alts [] = Zero"
| "alts [r] = r"
| "alts (r # rs) = Alt r (alts rs)"

definition str :: "string \<Rightarrow> rexp" where
  "str s = seq (map chr s)"

definition opt :: "rexp \<Rightarrow> rexp" where
  "opt r = Alt r One"

definition plus :: "rexp \<Rightarrow> rexp" where
  "plus r = Times r (Star r)"

text \<open>\<open>rep n r\<close> is \<^verbatim>\<open>r{n}\<close>, \<open>upto n r\<close> is \<^verbatim>\<open>r{0,n}\<close>, \<open>between m n r\<close> is \<^verbatim>\<open>r{m,n}\<close> and
  \<open>atleast m r\<close> is \<^verbatim>\<open>r{m,}\<close>.\<close>

fun rep :: "nat \<Rightarrow> rexp \<Rightarrow> rexp" where
  "rep 0 r = One"
| "rep (Suc n) r = Times r (rep n r)"

fun upto :: "nat \<Rightarrow> rexp \<Rightarrow> rexp" where
  "upto 0 r = One"
| "upto (Suc n) r = Alt (Times r (upto n r)) One"

definition between :: "nat \<Rightarrow> nat \<Rightarrow> rexp \<Rightarrow> rexp" where
  "between m n r = Times (rep m r) (upto (n - m) r)"

definition atleast :: "nat \<Rightarrow> rexp \<Rightarrow> rexp" where
  "atleast m r = Times (rep m r) (Star r)"

definition digit :: rexp where
  "digit = Class True [Rng CHR ''0'' CHR ''9'']"

definition nonspace :: rexp where
  "nonspace = Class False [Rng (CHR 0x09) (CHR 0x0D), Rng (CHR 0x1C) (CHR 0x20), Ch (CHR 0x85), Ch (CHR 0xA0)]"

definition notcolon :: rexp where
  "notcolon = Class False [Ch CHR '':'']"

definition lowerhex :: rexp where
  "lowerhex = Class True [Rng CHR ''0'' CHR ''9'', Rng CHR ''a'' CHR ''f'']"

definition alnum :: rexp where
  "alnum = Class True [Rng CHR ''a'' CHR ''z'', Rng CHR ''A'' CHR ''Z'', Rng CHR ''0'' CHR ''9'']"

definition alnumdash :: rexp where
  "alnumdash = Class True [Rng CHR ''a'' CHR ''z'', Rng CHR ''A'' CHR ''Z'', Rng CHR ''0'' CHR ''9'', Ch CHR ''-'']"

definition alpha :: rexp where
  "alpha = Class True [Rng CHR ''a'' CHR ''z'', Rng CHR ''A'' CHR ''Z'']"

subsection \<open>The patterns of the validators\<close>

text \<open>\<^verbatim>\<open>^[0-9a-f]{8}-[0-9a-f]{4}-[0-9a-f]{4}-[0-9a-f]{4}-[0-9a-f]{12}$\<close>\<close>

definition uuid_pattern :: rexp where
  "uuid_pattern =
     seq [rep 8 lowerhex, chr CHR ''-'', rep 4 lowerhex, chr CHR ''-'', rep 4 lowerhex,
          chr CHR ''-'', rep 4 lowerhex, chr CHR ''-'', rep 12 lowerhex]"

text \<open>\<^verbatim>\<open>^[0-9a-z]+$\<close>\<close>

definition lowercase_alphanumeric_pattern :: rexp where
  "lowercase_alphanumeric_pattern =
     plus (Class True [Rng CHR ''0'' CHR ''9'', Rng CHR ''a'' CHR ''z''])"

text \<open>\<^verbatim>\<open>^(http)s?://(([a-zA-Z0-9]([a-zA-Z0-9-]{0,61}[a-zA-Z0-9])?\.)+([a-zA-Z]{2,6}\.?|[a-zA-Z0-9-]{2,}\.?)|localhost|\d{1,3}\.\d{1,3}\.\d{1,3}\.\d{1,3})(:\d+)?(/?|[/?]\S+)$\<close>\<close>

definition http_url_pattern :: rexp where
  "http_url_pattern =
     seq [str ''http'', opt (chr CHR ''s''), str ''://'',
          alts [seq [plus (seq [alnum, opt (seq [upto 61 alnumdash, alnum]), chr CHR ''.'']),
                     alts [seq [between 2 6 alpha, opt (chr CHR ''.'')],
                           seq [atleast 2 alnumdash, opt (chr CHR ''.'')]]],
                str ''localhost'',
                seq [between 1 3 digit, chr CHR ''.'', between 1 3 digit, chr CHR ''.'',
                     between 1 3 digit, chr CHR ''.'', between 1 3 digit]],
          opt (seq [chr CHR '':'', plus digit]),
          alts [opt (chr CHR ''/''), seq [Class True [Ch CHR ''/'', Ch CHR ''?''], plus nonspace]]]"

text \<open>\<^verbatim>\<open>^arn:aws[^:]*:[^:]*:[^:]*:[^:]*:[^:]*(:[^:]*)?$\<close>\<close>

definition arn_pattern :: rexp where
  "arn_pattern =
     seq [str ''arn:aws'', Star notcolon, chr CHR '':'', Star notcolon, chr CHR '':'',
          Star notcolon, chr CHR '':'', Star notcolon, chr CHR '':'', Star notcolon,
          opt (seq [chr CHR '':'', Star notcolon])]"

text \<open>\<^verbatim>\<open>^(((\d)|([1-9]\d)|(1\d{2})|(2[0-4]\d)|(25[0-5]))\.){3}((\d)|([1-9]\d)|(1\d{2})|(2[0-4]\d)|(25[0-5]))$\<close>\<close>

definition octet :: rexp where
  "octet =
     alts [digit,
           seq [Class True [Rng CHR ''1'' CHR ''9''], digit],
           seq [chr CHR ''1'', rep 2 digit],
           seq [chr CHR ''2'', Class True [Rng CHR ''0'' CHR ''4''], digit],
           seq [str ''25'', Class True [Rng CHR ''0'' CHR ''5'']]]"

definition ip_pattern :: rexp where
  "ip_pattern = seq [rep 3 (seq [octet, chr CHR ''.'']), octet]"

text \<open>\<^verbatim>\<open>^((0\.)|([1-9]\d*\.))?((\d)|(1\d)|(2[0-4])):((\d)|([1-5]\d)):((\d)|([1-5]\d))$\<close>\<close>

definition sixty :: rexp where
  "sixty = alts [digit, seq [Class True [Rng CHR ''1'' CHR ''5''], digit]]"

definition duration_pattern :: rexp where
  "duration_pattern =
     seq [opt (alts [str ''0.'', seq [Class True [Rng CHR ''1'' CHR ''9''], Star digit, chr CHR ''.'']]),
          alts [digit, seq [chr CHR ''1'', digit], seq [chr CHR ''2'', Class True [Rng CHR ''0'' CHR ''4'']]],
          chr CHR '':'', sixty, chr CHR '':'', sixty]"

text \<open>\<^verbatim>\<open>^[a-zA-Z0-9_.+-]+@[a-zA-Z0-9-]+\.[a-zA-Z0-9-.]+$\<close>\<close>

definition email_pattern :: rexp where
  "email_pattern =
     seq [plus (Class True [Rng CHR ''a'' CHR ''z'', Rng CHR ''A'' CHR ''Z'', Rng CHR ''0'' CHR ''9'',
                            Ch CHR ''_'', Ch CHR ''.'', Ch CHR ''+'', Ch CHR ''-'']),
          chr CHR ''@'', plus alnumdash, chr CHR ''.'',
          plus (Class True [Rng CHR ''a'' CHR ''z'', Rng CHR ''A'' CHR ''Z'', Rng CHR ''0'' CHR ''9'',
                            Ch CHR ''-'', Ch CHR ''.''])]"

text \<open>\<^verbatim>\<open>^\d{12}$\<close>\<close>

definition twelve_digits_pattern :: rexp where
  "twelve_digits_pattern = rep 12 digit"

section \<open>Errors\<close>

text \<open>
  The exceptions a call of the SDK can end with. The validators raise the built-in
  \<^verbatim>\<open>ValueError\<close> (the specification calls it \<^verbatim>\<open>InvalidFormat\<close>); \<^verbatim>\<open>TypeError\<close> is what
  Python raises when \<^verbatim>\<open>re.match\<close> or \<^verbatim>\<open><\<close> is applied to \<^verbatim>\<open>None\<close>.
  \<open>Dome9APIException message code content\<close> is the exception class of
  \<^verbatim>\<open>dome9/exceptions.py\<close>; \<open>Propagated e\<close> is an exception raised by the HTTP library, in
  the call or while the body is decoded, that the dispatcher does not catch.
\<close>

datatype error =
    ValueError
  | TypeError
  | Dome9APIException string "int option" "string option"
  | Propagated string

section \<open>The validators\<close>

text \<open>\<^verbatim>\<open>match(pattern, arg)\<close> as the validators test it: a \<^verbatim>\<open>TypeError\<close> on \<^verbatim>\<open>None\<close>,
  otherwise whether there is a match.\<close>

definition re_match :: "rexp \<Rightarrow> string option \<Rightarrow> error + bool" where
  "re_match pattern arg =
     (case arg of None \<Rightarrow> Inl TypeError | Some s \<Rightarrow> Inr (match_anchored pattern s))"

definition check_pattern :: "rexp \<Rightarrow> string option \<Rightarrow> bool \<Rightarrow> error + unit" where
  "check_pattern pattern arg optional =
     (if optional \<and> arg = None then Inr ()
      else case re_match pattern arg of
             Inl e \<Rightarrow> Inl e
           | Inr m \<Rightarrow> if \<not> m then Inl ValueError else Inr ())"

definition checkIsUUID :: "string option \<Rightarrow> bool \<Rightarrow> error + unit" where
  "checkIsUUID arg optional = check_pattern uuid_pattern arg optional"

definition checkOnlyContainsLowercaseAlphanumeric :: "string option \<Rightarrow> bool \<Rightarrow> error + unit" where
  "checkOnlyContainsLowercaseAlphanumeric arg optional =
     check_pattern lowercase_alphanumeric_pattern arg optional"

definition checkIsHTTPURL :: "string option \<Rightarrow> bool \<Rightarrow> error + unit" where
  "checkIsHTTPURL arg optional = check_pattern http_url_pattern arg optional"

definition checkIsARN :: "string option \<Rightarrow> bool \<Rightarrow> error + unit" where
  "checkIsARN arg optional = check_pattern arn_pattern arg optional"

definition checkIsIP :: "string option \<Rightarrow> bool \<Rightarrow> error + unit" where
  "checkIsIP arg optional = check_pattern ip_pattern arg optional"

definition checkIsDuration :: "string option \<Rightarrow> bool \<Rightarrow> error + unit" where
  "checkIsDuration arg optional = check_pattern duration_pattern arg optional"

definition checkIsEmail :: "string option \<Rightarrow> bool \<Rightarrow> error + unit" where
  "checkIsEmail arg optional = check_pattern email_pattern arg optional"

definition checkIsUUIDOr12Digits :: "string option \<Rightarrow> bool \<Rightarrow> error + unit" where
  "checkIsUUIDOr12Digits arg optional =
     (if optional \<and> arg = None then Inr ()
      else case re_match twelve_digits_pattern arg of
             Inl e \<Rightarrow> Inl e
           | Inr m12 \<Rightarrow>
               if m12 then Inr ()
               else (case re_match uuid_pattern arg of
                       Inl e \<Rightarrow> Inl e
                     | Inr mu \<Rightarrow> if \<not> mu then Inl ValueError else Inr ()))"

definition checkIsNotNegative :: "int option \<Rightarrow> bool \<Rightarrow> error + unit" where
  "checkIsNotNegative arg optional =
     (if optional \<and> arg = None then Inr ()
      else case arg of
             None \<Rightarrow> Inl TypeError
           | Some n \<Rightarrow> if n < 0 then Inl ValueError else Inr ())"

definition checkIsNotEmpty :: "string option \<Rightarrow> bool \<Rightarrow> error + unit" where
  "checkIsNotEmpty arg optional =
     (if optional \<and> arg = None then Inr ()
      else if arg = Some [] then Inl ValueError else Inr ())"

definition checkIsPort :: "int option \<Rightarrow> bool \<Rightarrow> error + unit" where
  "checkIsPort arg optional =
     (if optional \<and> arg = None then Inr ()
      else case arg of
             None \<Rightarrow> Inl TypeError
           | Some n \<Rightarrow> if n < 0 \<or> n > 65535 then Inl ValueError else Inr ())"

section \<open>Joining a base URL and a route\<close>

text \<open>
  The dispatcher computes the request URL with \<^verbatim>\<open>urllib.parse.urljoin\<close> of the Python
  standard library. The functions below follow \<^verbatim>\<open>urllib/parse.py\<close> of CPython 3.11 on
  \<^verbatim>\<open>str\<close> arguments (\<^verbatim>\<open>allow_fragments\<close> is left at its default \<^verbatim>\<open>True\<close>; the result cache
  and the coercion of \<^verbatim>\<open>bytes\<close> arguments have no effect on the result). Two checks of
  \<^verbatim>\<open>urlsplit\<close> depend on tables that are not part of this development:
  \<^verbatim>\<open>_check_bracketed_host\<close> parses an IPv6 or IPvFuture literal and is taken as the
  parameter \<open>bracketed_host_ok\<close> (whether it returns without raising);
  \<^verbatim>\<open>_checknetloc\<close> raises only when the NFKC normal form of a non-ASCII host contains one
  of \<^verbatim>\<open>/?#@:\<close>, which no text of code points below 256 does.
\<close>

definition uses_relative :: "string list" where
  "uses_relative =
     ['''', ''ftp'', ''http'', ''gopher'', ''nntp'', ''imap'', ''wais'', ''file'', ''https'',
      ''shttp'', ''mms'', ''prospero'', ''rtsp'', ''rtsps'', ''rtspu'', ''sftp'', ''svn'',
      ''svn+ssh'', ''ws'', ''wss'']"

definition uses_netloc :: "string list" where
  "uses_netloc =
     ['''', ''ftp'', ''http'', ''gopher'', ''nntp'', ''telnet'', ''imap'', ''wais'', ''file'',
      ''mms'', ''https'', ''shttp'', ''snews'', ''prospero'', ''rtsp'', ''rtsps'', ''rtspu'',
      ''rsync'', ''svn'', ''svn+ssh'', ''sftp'', ''nfs'', ''git'', ''git+ssh'', ''ws'', ''wss'']"

definition uses_params :: "string list" where
  "uses_params =
     ['''', ''ftp'', ''hdl'', ''prospero'', ''http'', ''imap'', ''https'', ''shttp'', ''rtsp'',
      ''rtsps'', ''rtspu'', ''sip'', ''sips'', ''mms'', ''sftp'', ''tel'']"

definition scheme_chars :: string where
  "scheme_chars = ''abcdefghijklmnopqrstuvwxyzABCDEFGHIJKLMNOPQRSTUVWXYZ0123456789+-.''"

text \<open>\<open>before c s\<close> and \<open>after c s\<close> are the two parts of \<^verbatim>\<open>s.split(c, 1)\<close> when \<open>c\<close>
  occurs in \<open>s\<close>.\<close>

definition before :: "char \<Rightarrow> string \<Rightarrow> string" where
  "before c s = takeWhile (\<lambda>x. x \<noteq> c) s"

definition after :: "char \<Rightarrow> string \<Rightarrow> string" where
  "after c s = drop 1 (dropWhile (\<lambda>x. x \<noteq> c) s)"

text \<open>\<^verbatim>\<open>s.split(c)\<close>\<close>

fun split_on :: "char \<Rightarrow> string \<Rightarrow> string list" where
  "split_on c [] = [[]]"
| "split_on c (x # xs) =
     (if x = c then [] # split_on c xs
      else (case split_on c xs of [] \<Rightarrow> [[x]] | y # ys \<Rightarrow> (x # y) # ys))"

text \<open>\<^verbatim>\<open>sep.join(parts)\<close>\<close>

fun join :: "string \<Rightarrow> string list \<Rightarrow> string" where
  "join sep [] = []"
| "join sep [p] = p"
| "join sep (p # ps) = p @ sep @ join sep ps"

definition c0_control_or_space :: "char \<Rightarrow> bool" where
  "c0_control_or_space c = ((of_char c :: nat) \<le> 32)"

definition unsafe_url_byte :: "char \<Rightarrow> bool" where
  "unsafe_url_byte c = (c = CHR 0x09 \<or> c = CHR 0x0D \<or> c = CHR 0x0A)"

definition ascii_alpha :: "char \<Rightarrow> bool" where
  "ascii_alpha c = in_class True [Rng CHR ''a'' CHR ''z'', Rng CHR ''A'' CHR ''Z''] c"

definition lower :: "char \<Rightarrow> char" where
  "lower c = (if in_class True [Rng CHR ''A'' CHR ''Z''] c then char_of (of_char c + (32::nat)) else c)"

definition netloc_char :: "char \<Rightarrow> bool" where
  "netloc_char c = (c \<noteq> CHR ''/'' \<and> c \<noteq> CHR ''?'' \<and> c \<noteq> CHR ''#'')"

definition urlsplit ::
  "(string \<Rightarrow> bool) \<Rightarrow> string \<Rightarrow> string \<Rightarrow> error + (string \<times> string \<times> string \<times> string \<times> string)" where
  "urlsplit bracketed_host_ok url0 scheme0 =
     (let url1 = filter (\<lambda>c. \<not> unsafe_url_byte c) (dropWhile c0_control_or_space url0);
          scheme1 = filter (\<lambda>c. \<not> unsafe_url_byte c)
                      (rev (dropWhile c0_control_or_space (rev (dropWhile c0_control_or_space scheme0))));
          has_scheme = (CHR '':'' \<in> set url1 \<and> before CHR '':'' url1 \<noteq> [] \<and> ascii_alpha (hd url1) \<and>
                        list_all (\<lambda>c. c \<in> set scheme_chars) (before CHR '':'' url1));
          scheme = (if has_scheme then map lower (before CHR '':'' url1) else scheme1);
          url2 = (if has_scheme then after CHR '':'' url1 else url1);
          has_netloc = (take 2 url2 = ''//'');
          netloc = (if has_netloc then takeWhile netloc_char (drop 2 url2) else []);
          url3 = (if has_netloc then dropWhile netloc_char (drop 2 url2) else url2);
          url4 = (if CHR ''#'' \<in> set url3 then before CHR ''#'' url3 else url3);
          fragment = (if CHR ''#'' \<in> set url3 then after CHR ''#'' url3 else []);
          url5 = (if CHR ''?'' \<in> set url4 then before CHR ''?'' url4 else url4);
          query = (if CHR ''?'' \<in> set url4 then after CHR ''?'' url4 else [])
      in if (CHR ''['' \<in> set netloc) \<noteq> (CHR '']'' \<in> set netloc) then Inl ValueError
         else if CHR ''['' \<in> set netloc \<and> CHR '']'' \<in> set netloc \<and>
                 \<not> bracketed_host_ok (before CHR '']'' (after CHR ''['' netloc))
         then Inl ValueError
         else Inr (scheme, netloc, url5, query, fragment))"

definition splitparams :: "string \<Rightarrow> string \<times> string" where
  "splitparams url =
     (if CHR ''/'' \<in> set url then
        (let last_part = rev (takeWhile (\<lambda>x. x \<noteq> CHR ''/'') (rev url));
             upto_slash = take (length url - length last_part) url
         in if CHR '';'' \<in> set last_part
            then (upto_slash @ before CHR '';'' last_part, after CHR '';'' last_part)
            else (url, []))
      else (before CHR '';'' url, after CHR '';'' url))"

definition urlparse ::
  "(string \<Rightarrow> bool) \<Rightarrow> string \<Rightarrow> string \<Rightarrow>
     error + (string \<times> string \<times> string \<times> string \<times> string \<times> string)" where
  "urlparse bracketed_host_ok url0 scheme0 =
     (case urlsplit bracketed_host_ok url0 scheme0 of
        Inl e \<Rightarrow> Inl e
      | Inr (scheme, netloc, url, query, fragment) \<Rightarrow>
          if scheme \<in> set uses_params \<and> CHR '';'' \<in> set url
          then Inr (scheme, netloc, fst (splitparams url), snd (splitparams url), query, fragment)
          else Inr (scheme, netloc, url, [], query, fragment))"

definition urlunsplit :: "string \<Rightarrow> string \<Rightarrow> string \<Rightarrow> string \<Rightarrow> string \<Rightarrow> string" where
  "urlunsplit scheme netloc url0 query fragment =
     (let url1 = (if netloc \<noteq> [] \<or> (scheme \<noteq> [] \<and> scheme \<in> set uses_netloc) \<or> take 2 url0 = ''//''
                  then ''//'' @ netloc @ (if url0 \<noteq> [] \<and> take 1 url0 \<noteq> ''/'' then ''/'' @ url0 else url0)
                  else url0);
          url2 = (if scheme \<noteq> [] then scheme @ '':'' @ url1 else url1);
          url3 = (if query \<noteq> [] then url2 @ ''?'' @ query else url2)
      in if fragment \<noteq> [] then url3 @ ''#'' @ fragment else url3)"

definition urlunparse ::
  "string \<Rightarrow> string \<Rightarrow> string \<Rightarrow> string \<Rightarrow> string \<Rightarrow> string \<Rightarrow> string" where
  "urlunparse scheme netloc url params query fragment =
     urlunsplit scheme netloc (if params \<noteq> [] then url @ '';'' @ params else url) query fragment"

text \<open>The loop of \<^verbatim>\<open>urljoin\<close> over the path segments: \<^verbatim>\<open>..\<close> pops, \<^verbatim>\<open>.\<close> is skipped.\<close>

fun resolve_segments :: "string list \<Rightarrow> string list \<Rightarrow> string list" where
  "resolve_segments resolved [] = resolved"
| "resolve_segments resolved (seg # segs) =
     (if seg = ''..'' then resolve_segments (butlast resolved) segs
      else if seg = ''.'' then resolve_segments resolved segs
      else resolve_segments (resolved @ [seg]) segs)"

definition urljoin :: "(string \<Rightarrow> bool) \<Rightarrow> string \<Rightarrow> string \<Rightarrow> error + string" where
  "urljoin bracketed_host_ok base url =
     (if base = [] then Inr url
      else if url = [] then Inr base
      else case urlparse bracketed_host_ok base [] of
        Inl e \<Rightarrow> Inl e
      | Inr (bscheme, bnetloc, bpath, bparams, bquery, bfragment) \<Rightarrow>
       (case urlparse bracketed_host_ok url bscheme of
          Inl e \<Rightarrow> Inl e
        | Inr (scheme, netloc0, path, params, query, fragment) \<Rightarrow>
            if scheme \<noteq> bscheme \<or> scheme \<notin> set uses_relative then Inr url
            else if scheme \<in> set uses_netloc \<and> netloc0 \<noteq> []
            then Inr (urlunparse scheme netloc0 path params query fragment)
            else
              (let netloc = (if scheme \<in> set uses_netloc then bnetloc else netloc0) in
               if path = [] \<and> params = []
               then Inr (urlunparse scheme netloc bpath bparams
                           (if query = [] then bquery else query) fragment)
               else
                 (let base_parts0 = split_on CHR ''/'' bpath;
                      base_parts = (if last base_parts0 \<noteq> [] then butlast base_parts0 else base_parts0);
                      joined = base_parts @ split_on CHR ''/'' path;
                      segments =
                        (if take 1 path = ''/'' then split_on CHR ''/'' path
                         else if length joined < 2 then joined
                         else hd joined # filter (\<lambda>seg. seg \<noteq> []) (butlast (tl joined)) @ [last joined]);
                      resolved0 = resolve_segments [] segments;
                      resolved = (if last segments = ''.'' \<or> last segments = ''..''
                                  then resolved0 @ [[]] else resolved0);
                      joined_path = join ''/'' resolved
                  in Inr (urlunparse scheme netloc (if joined_path = [] then ''/'' else joined_path)
                            params query fragment)))))"

section \<open>Values, requests and responses\<close>

text \<open>
  A Python value as the SDK passes it to and receives it from the HTTP library: what a
  JSON document decodes to, and \<open>PyEnum\<close> for a member of one of the enumerations of
  \<^verbatim>\<open>dome9_api_consts\<close>, named by its member name. A float is kept as its text, no
  arithmetic is done on it.
\<close>

datatype pyval =
    PyNone
  | PyBool bool
  | PyInt int
  | PyFloat string
  | PyStr string
  | PyList "pyval list"
  | PyDict "(string \<times> pyval) list"
  | PyEnum string

definition opt_val :: "('a \<Rightarrow> pyval) \<Rightarrow> 'a option \<Rightarrow> pyval" where
  "opt_val f x = (case x of None \<Rightarrow> PyNone | Some v \<Rightarrow> f v)"

text \<open>The keyword arguments of one call of \<^verbatim>\<open>requests.get\<close>, \<^verbatim>\<open>requests.post\<close>, ...;
  \<open>call_verb\<close> is the name of the function looked up in \<^verbatim>\<open>requests\<close>.\<close>

record http_call =
  call_verb :: string
  call_url :: string
  call_json :: pyval
  call_params :: "(string \<times> pyval) list option"
  call_headers :: "(string \<times> string) list"
  call_auth :: "string \<times> string"

text \<open>
  What \<^verbatim>\<open>response.json()\<close> does: it returns the decoded value, it raises a
  \<^verbatim>\<open>ValueError\<close> (the decoder's \<^verbatim>\<open>JSONDecodeError\<close>, or \<^verbatim>\<open>UnicodeDecodeError\<close>) whose \<^verbatim>\<open>str\<close> is
  the given message, or it raises an exception that is not a \<^verbatim>\<open>ValueError\<close> (the decoder
  raises \<^verbatim>\<open>RecursionError\<close> on a document nested too deeply).
\<close>

datatype json_outcome =
    Decoded pyval
  | DecodeValueError string
  | DecodeOtherException string

text \<open>The response object: \<open>content\<close> is the raw body, \<open>json_result\<close> is what
  \<^verbatim>\<open>response.json()\<close> does.\<close>

record response =
  status_code :: int
  reason :: string
  content :: string
  json_result :: json_outcome

text \<open>
  What the call of the HTTP library does: it raises \<^verbatim>\<open>requests.ConnectionError\<close> (or a
  subclass of it) whose \<^verbatim>\<open>str\<close> is the given text, it raises some other exception, or it
  returns a response.
\<close>

datatype net_result =
    ConnectionError string
  | OtherException string
  | Response response

text \<open>What lies outside the program: the network behind the HTTP library, and the host
  check of \<^verbatim>\<open>urlsplit\<close>.\<close>

record env =
  http :: "http_call \<Rightarrow> net_result"
  bracketed_host_ok :: "string \<Rightarrow> bool"

text \<open>An object together with the calls of the HTTP library made so far.\<close>

record 'c world =
  obj :: 'c
  sent :: "http_call list"

section \<open>The current client: \<^verbatim>\<open>Dome9APISDK\<close>\<close>

datatype RequestMethods = GET | POST | PATCH | PUT | DELETE

fun method_value :: "RequestMethods \<Rightarrow> string" where
  "method_value GET = ''get''"
| "method_value POST = ''post''"
| "method_value PATCH = ''patch''"
| "method_value PUT = ''put''"
| "method_value DELETE = ''delete''"

text \<open>\<open>clientAuth\<close> is \<^verbatim>\<open>HTTPBasicAuth(key, secret)\<close>: the user name and the password.\<close>

record Dome9APISDK =
  origin :: string
  clientAuth :: "string \<times> string"

text \<open>Statements run one after the other; the first exception ends the run.\<close>

fun in_order :: "(error + unit) list \<Rightarrow> error + unit" where
  "in_order [] = Inr ()"
| "in_order (c # cs) = (case c of Inl e \<Rightarrow> Inl e | Inr u \<Rightarrow> in_order cs)"

text \<open>\<^verbatim>\<open>Dome9APISDK.__init__(key, secret, origin)\<close>, with the calls made so far passed
  through.\<close>

definition init ::
  "string \<Rightarrow> string \<Rightarrow> string \<Rightarrow> http_call list \<Rightarrow> (error + Dome9APISDK) \<times> http_call list" where
  "init key secret orig calls =
     (case in_order [checkIsUUID (Some key) False,
                     checkOnlyContainsLowercaseAlphanumeric (Some secret) False,
                     checkIsHTTPURL (Some orig) False] of
        Inl e \<Rightarrow> (Inl e, calls)
      | Inr u \<Rightarrow> (Inr \<lparr>origin = orig, clientAuth = (key, secret)\<rparr>, calls))"

text \<open>\<^verbatim>\<open>n in range(lo, hi)\<close>\<close>

definition in_range :: "int \<Rightarrow> int \<Rightarrow> int \<Rightarrow> bool" where
  "in_range lo hi n = (lo \<le> n \<and> n < hi)"

definition json_headers :: "(string \<times> string) list" where
  "json_headers = [(''Accept'', ''application/json''), (''Content-Type'', ''application/json'')]"

text \<open>The call that \<^verbatim>\<open>_request\<close> makes once the URL is known:
  \<^verbatim>\<open>getattr(requests, method.value)(url=url, json=body, params=params, headers=headers, auth=self._clientAuth)\<close>.\<close>

definition build_call ::
  "Dome9APISDK \<Rightarrow> RequestMethods \<Rightarrow> string \<Rightarrow> pyval \<Rightarrow> (string \<times> pyval) list option \<Rightarrow> http_call" where
  "build_call self method url body params =
     \<lparr>call_verb = method_value method, call_url = url, call_json = body,
      call_params = params, call_headers = json_headers, call_auth = clientAuth self\<rparr>"

text \<open>\<^verbatim>\<open>Dome9APISDK._request(method, route, body, params)\<close>\<close>

definition request ::
  "env \<Rightarrow> RequestMethods \<Rightarrow> string \<Rightarrow> pyval \<Rightarrow> (string \<times> pyval) list option \<Rightarrow>
     Dome9APISDK world \<Rightarrow> (error + pyval) \<times> Dome9APISDK world" where
  "request e method route body params w =
     (case urljoin (bracketed_host_ok e) (origin (obj w)) route of
        Inl err \<Rightarrow> (Inl err, w)
      | Inr url \<Rightarrow>
          (let call = build_call (obj w) method url body params;
               w' = w\<lparr>sent := sent w @ [call]\<rparr>
           in case http e call of
                ConnectionError text \<Rightarrow> (Inl (Dome9APIException (url @ '' '' @ text) None None), w')
              | OtherException exn \<Rightarrow> (Inl (Propagated exn), w')
              | Response r \<Rightarrow>
                  if \<not> in_range 200 299 (status_code r)
                  then (Inl (Dome9APIException (reason r) (Some (status_code r)) (Some (content r))), w')
                  else if content r \<noteq> []
                  then (case json_result r of
                          Decoded jsonResponse \<Rightarrow> (Inr jsonResponse, w')
                        | DecodeValueError valueError \<Rightarrow>
                            (Inl (Dome9APIException valueError (Some (status_code r)) (Some (content r))), w')
                        | DecodeOtherException exn \<Rightarrow> (Inl (Propagated exn), w'))
                  else (Inr PyNone, w')))"

section \<open>The legacy client: \<^verbatim>\<open>dome9/client.py\<close>\<close>

record Client =
  baseURL :: string
  legacyAuth :: "string \<times> string"

text \<open>
  Modelled from the spec: \<^verbatim>\<open>dome9/consts.py\<close> is not among the sources; its
  \<^verbatim>\<open>RequestMethods\<close> is taken to be the enumeration of the five verbs that the current
  client declares, with the same values.
\<close>

definition legacy_method_value :: "RequestMethods \<Rightarrow> string" where
  "legacy_method_value m = method_value m"

text \<open>
  \<^verbatim>\<open>Client.__init__(apiKey, apiSecret, baseURL)\<close>. The three validators of
  \<^verbatim>\<open>dome9/statics.py\<close> are not among the sources and are parameters here.
\<close>

definition Client_init ::
  "(string \<Rightarrow> error + unit) \<Rightarrow> (string \<Rightarrow> error + unit) \<Rightarrow> (string \<Rightarrow> error + unit) \<Rightarrow>
     string \<Rightarrow> string \<Rightarrow> string \<Rightarrow> http_call list \<Rightarrow> (error + Client) \<times> http_call list" where
  "Client_init statics_checkIsUUID statics_checkOnlyContainsLowercaseAlphanumeric statics_checkIsHTTPURL
       apiKey apiSecret url calls =
     (case in_order [statics_checkIsUUID apiKey,
                     statics_checkOnlyContainsLowercaseAlphanumeric apiSecret,
                     statics_checkIsHTTPURL url] of
        Inl e \<Rightarrow> (Inl e, calls)
      | Inr u \<Rightarrow> (Inr \<lparr>baseURL = url, legacyAuth = (apiKey, apiSecret)\<rparr>, calls))"

definition DEFAULT_FORMAT :: string where
  "DEFAULT_FORMAT = ''application/json''"

definition HTTP_OK_RANGE :: "int \<Rightarrow> bool" where
  "HTTP_OK_RANGE = in_range 200 299"

definition Client_build_call ::
  "Client \<Rightarrow> RequestMethods \<Rightarrow> string \<Rightarrow> pyval \<Rightarrow> (string \<times> pyval) list option \<Rightarrow> http_call" where
  "Client_build_call self method url body params =
     (let headers = [(''Accept'', DEFAULT_FORMAT), (''Content-Type'', DEFAULT_FORMAT)]
      in \<lparr>call_verb = legacy_method_value method, call_url = url, call_json = body,
          call_params = params, call_headers = headers, call_auth = legacyAuth self\<rparr>)"

text \<open>\<^verbatim>\<open>Client._request(method, route, body, params)\<close>\<close>

definition Client_request ::
  "env \<Rightarrow> RequestMethods \<Rightarrow> string \<Rightarrow> pyval \<Rightarrow> (string \<times> pyval) list option \<Rightarrow>
     Client world \<Rightarrow> (error + pyval) \<times> Client world" where
  "Client_request e method route body params w =
     (case urljoin (bracketed_host_ok e) (baseURL (obj w)) route of
        Inl err \<Rightarrow> (Inl err, w)
      | Inr url \<Rightarrow>
          (let call = Client_build_call (obj w) method url body params;
               w' = w\<lparr>sent := sent w @ [call]\<rparr>
           in case http e call of
                ConnectionError text \<Rightarrow> (Inl (Dome9APIException (url @ '' '' @ text) None None), w')
              | OtherException exn \<Rightarrow> (Inl (Propagated exn), w')
              | Response r \<Rightarrow>
                  if \<not> HTTP_OK_RANGE (status_code r)
                  then (Inl (Dome9APIException (reason r) (Some (status_code r)) (Some (content r))), w')
                  else if content r \<noteq> []
                  then (case json_result r of
                          Decoded jsonResponse \<Rightarrow> (Inr jsonResponse, w')
                        | DecodeValueError valueError \<Rightarrow>
                            (Inl (Dome9APIException valueError (Some (status_code r)) (Some (content r))), w')
                        | DecodeOtherException exn \<Rightarrow> (Inl (Propagated exn), w'))
                  else (Inr PyNone, w')))"

section \<open>Operations of the current client\<close>

text \<open>
  Every public method of \<^verbatim>\<open>Dome9APISDK\<close> runs its validators, builds a route and a body
  from its arguments and calls \<^verbatim>\<open>_request\<close> once. An argument annotated \<^verbatim>\<open>str\<close> or \<^verbatim>\<open>int\<close>
  is a \<^typ>\<open>string\<close> or an \<^typ>\<open>int\<close>; one annotated \<^verbatim>\<open>Optional[...]\<close> is an option, with
  \<open>None\<close> for Python's \<^verbatim>\<open>None\<close>. A member of \<^verbatim>\<open>Protocols\<close> or \<^verbatim>\<open>Regions\<close> is given by its
  name.
\<close>

text \<open>A method that calls \<^verbatim>\<open>self._request(...)\<close> as a statement returns \<^verbatim>\<open>None\<close>.\<close>

definition returning_none ::
  "(error + pyval) \<times> 'c world \<Rightarrow> (error + pyval) \<times> 'c world" where
  "returning_none res = (case fst res of Inl err \<Rightarrow> (Inl err, snd res) | Inr v \<Rightarrow> (Inr PyNone, snd res))"

text \<open>\<^verbatim>\<open>getAllUsers()\<close>\<close>

definition getAllUsers :: "env \<Rightarrow> Dome9APISDK world \<Rightarrow> (error + pyval) \<times> Dome9APISDK world" where
  "getAllUsers e w = request e GET ''user'' PyNone None w"

text \<open>\<^verbatim>\<open>getCloudAccountId(cloudAccountId)\<close>\<close>

definition getCloudAccountId ::
  "env \<Rightarrow> string \<Rightarrow> Dome9APISDK world \<Rightarrow> (error + pyval) \<times> Dome9APISDK world" where
  "getCloudAccountId e cloudAccountId w =
     (case in_order [checkIsUUIDOr12Digits (Some cloudAccountId) False] of
        Inl err \<Rightarrow> (Inl err, w)
      | Inr u \<Rightarrow> request e GET (''CloudAccounts/'' @ cloudAccountId) PyNone None w)"

text \<open>\<^verbatim>\<open>updateAwsAccountCredentials(arn, secret, externalAccountNumber=None, cloudAccountId=None)\<close>\<close>

definition updateAwsAccountCredentials ::
  "env \<Rightarrow> string \<Rightarrow> string \<Rightarrow> string option \<Rightarrow> string option \<Rightarrow>
     Dome9APISDK world \<Rightarrow> (error + pyval) \<times> Dome9APISDK world" where
  "updateAwsAccountCredentials e arn secret externalAccountNumber cloudAccountId w =
     (case in_order [checkIsARN (Some arn) False,
                     checkOnlyContainsLowercaseAlphanumeric (Some secret) False,
                     checkIsUUID cloudAccountId True] of
        Inl err \<Rightarrow> (Inl err, w)
      | Inr u \<Rightarrow>
          returning_none
            (request e PUT ''CloudAccounts/credentials''
               (PyDict [(''cloudAccountId'', opt_val PyStr cloudAccountId),
                        (''externalAccountNumber'', opt_val PyStr externalAccountNumber),
                        (''data'', PyDict [(''arn'', PyStr arn), (''secret'', PyStr secret),
                                           (''type'', PyStr ''RoleBased'')])])
               None w))"

text \<open>\<^verbatim>\<open>updateCloudAccountID(cloudAccountId, name=None, fullProtection=None,
  allowReadOnly=None, organizationalUnitId=None, organizationalUnitPath=None,
  organizationalUnitName=None, lambdaScanner=None, arn=None, secret=None)\<close>\<close>

definition updateCloudAccountID ::
  "env \<Rightarrow> string \<Rightarrow> string option \<Rightarrow> bool option \<Rightarrow> bool option \<Rightarrow> string option \<Rightarrow>
     string option \<Rightarrow> string option \<Rightarrow> bool option \<Rightarrow> string option \<Rightarrow> string option \<Rightarrow>
     Dome9APISDK world \<Rightarrow> (error + pyval) \<times> Dome9APISDK world" where
  "updateCloudAccountID e cloudAccountId name fullProtection allowReadOnly organizationalUnitId
       organizationalUnitPath organizationalUnitName lambdaScanner arn secret w =
     (case in_order [checkIsUUID (Some cloudAccountId) False,
                     checkIsUUID organizationalUnitId True,
                     checkIsARN arn False,
                     checkOnlyContainsLowercaseAlphanumeric secret False] of
        Inl err \<Rightarrow> (Inl err, w)
      | Inr u \<Rightarrow>
          returning_none
            (request e PATCH (''CloudAccounts/'' @ cloudAccountId)
               (PyDict [(''name'', opt_val PyStr name),
                        (''fullProtection'', opt_val PyBool fullProtection),
                        (''allowReadOnly'', opt_val PyBool allowReadOnly),
                        (''organizationalUnitId'', opt_val PyStr organizationalUnitId),
                        (''organizationalUnitPath'', opt_val PyStr organizationalUnitPath),
                        (''organizationalUnitName'', opt_val PyStr organizationalUnitName),
                        (''lambdaScanner'', opt_val PyBool lambdaScanner),
                        (''CloudAccountCredentials'',
                           PyDict [(''arn'', opt_val PyStr arn), (''secret'', opt_val PyStr secret),
                                   (''type'', PyStr ''RoleBased'')])])
               None w))"

text \<open>\<^verbatim>\<open>acquireAwsLease(cloudAccountId, securityGroupId, ip, portFrom, portTo=None,
  protocol=None, duration=None, region=None, accountId=None, name=None, user=None)\<close>\<close>

definition acquireAwsLease_checks ::
  "string \<Rightarrow> int \<Rightarrow> string \<Rightarrow> int \<Rightarrow> int option \<Rightarrow> string option \<Rightarrow> int option \<Rightarrow>
     string option \<Rightarrow> (error + unit) list" where
  "acquireAwsLease_checks cloudAccountId securityGroupId ip portFrom portTo duration accountId user =
     [checkIsUUID (Some cloudAccountId) False,
      checkIsNotNegative (Some securityGroupId) False,
      checkIsIP (Some ip) False,
      checkIsPort (Some portFrom) False,
      checkIsPort portTo True,
      checkIsDuration duration True,
      checkIsNotNegative accountId True,
      checkIsEmail user True]"

definition acquireAwsLease ::
  "env \<Rightarrow> string \<Rightarrow> int \<Rightarrow> string \<Rightarrow> int \<Rightarrow> int option \<Rightarrow> string option \<Rightarrow> string option \<Rightarrow>
     string option \<Rightarrow> int option \<Rightarrow> string option \<Rightarrow> string option \<Rightarrow>
     Dome9APISDK world \<Rightarrow> (error + pyval) \<times> Dome9APISDK world" where
  "acquireAwsLease e cloudAccountId securityGroupId ip portFrom portTo protocol duration region
       accountId name user w =
     (case in_order (acquireAwsLease_checks cloudAccountId securityGroupId ip portFrom portTo
                       duration accountId user) of
        Inl err \<Rightarrow> (Inl err, w)
      | Inr u \<Rightarrow>
          returning_none
            (request e POST ''accesslease/aws''
               (PyDict [(''cloudAccountId'', PyStr cloudAccountId),
                        (''securityGroupId'', PyInt securityGroupId),
                        (''ip'', PyStr ip),
                        (''portFrom'', PyInt portFrom),
                        (''portTo'', opt_val PyInt portTo),
                        (''protocol'', opt_val PyEnum protocol),
                        (''length'', opt_val PyStr duration),
                        (''region'', opt_val PyEnum region),
                        (''accountId'', opt_val PyInt accountId),
                        (''name'', opt_val PyStr name),
                        (''user'', opt_val PyStr user)])
               None w))"

text \<open>A call of the client, and a run of calls one after the other on the same object.\<close>

datatype operation =
    Request RequestMethods string pyval "(string \<times> pyval) list option"
  | GetAllUsers
  | GetCloudAccountId string
  | UpdateAwsAccountCredentials string string "string option" "string option"
  | UpdateCloudAccountID string "string option" "bool option" "bool option" "string option"
      "string option" "string option" "bool option" "string option" "string option"
  | AcquireAwsLease string int string int "int option" "string option" "string option"
      "string option" "int option" "string option" "string option"

fun exec :: "env \<Rightarrow> operation \<Rightarrow> Dome9APISDK world \<Rightarrow> (error + pyval) \<times> Dome9APISDK world" where
  "exec e (Request method route body params) w = request e method route body params w"
| "exec e GetAllUsers w = getAllUsers e w"
| "exec e (GetCloudAccountId cloudAccountId) w = getCloudAccountId e cloudAccountId w"
| "exec e (UpdateAwsAccountCredentials arn secret externalAccountNumber cloudAccountId) w =
     updateAwsAccountCredentials e arn secret externalAccountNumber cloudAccountId w"
| "exec e (UpdateCloudAccountID cloudAccountId name fullProtection allowReadOnly organizationalUnitId
            organizationalUnitPath organizationalUnitName lambdaScanner arn secret) w =
     updateCloudAccountID e cloudAccountId name fullProtection allowReadOnly organizationalUnitId
       organizationalUnitPath organizationalUnitName lambdaScanner arn secret w"
| "exec e (AcquireAwsLease cloudAccountId securityGroupId ip portFrom portTo protocol duration region
            accountId name user) w =
     acquireAwsLease e cloudAccountId securityGroupId ip portFrom portTo protocol duration region
       accountId name user w"

fun run :: "env \<Rightarrow> operation list \<Rightarrow> Dome9APISDK world \<Rightarrow> Dome9APISDK world" where
  "run e [] w = w"
| "run e (op # ops) w = run e ops (snd (exec e op w))"

section \<open>The language of a pattern\<close>

text \<open>
  What a pattern body denotes: the set of texts it can read from the first character to
  the last. The matcher above is shown below to decide membership in this set.
\<close>

definition conc :: "string set \<Rightarrow> string set \<Rightarrow> string set" where
  "conc A B = {u @ v | u v. u \<in> A \<and> v \<in> B}"

inductive_set star :: "string set \<Rightarrow> string set" for A :: "string set" where
  star_empty: "[] \<in> star A"
| star_step: "u \<in> A \<Longrightarrow> v \<in> star A \<Longrightarrow> u @ v \<in> star A"

fun lang :: "rexp \<Rightarrow> string set" where
  "lang Zero = {}"
| "lang One = {[]}"
| "lang (Class pos items) = {[c] | c. in_class pos items c}"
| "lang (Times r s) = conc (lang r) (lang s)"
| "lang (Alt r s) = lang r \<union> lang s"
| "lang (Star r) = star (lang r)"

definition left_quotient :: "char \<Rightarrow> string set \<Rightarrow> string set" where
  "left_quotient c A = {w. c # w \<in> A}"

section \<open>The shapes the specification names\<close>

text \<open>
  The specification's table gives the UUID shape as "canonical 8-4-4-4-12 lowercase hex
  with hyphens" and the IPv4 shape as "four dot-separated octets, each 0-255". The
  predicates below state the two shapes on the text itself, without a pattern; an octet
  is a decimal numeral of one to three digits without a leading zero.
\<close>

definition lower_hex :: "char \<Rightarrow> bool" where
  "lower_hex c = (CHR ''0'' \<le> c \<and> c \<le> CHR ''9'' \<or> CHR ''a'' \<le> c \<and> c \<le> CHR ''f'')"

definition canonical_uuid :: "string \<Rightarrow> bool" where
  "canonical_uuid s =
     (length s = 36 \<and>
      s ! 8 = CHR ''-'' \<and> s ! 13 = CHR ''-'' \<and> s ! 18 = CHR ''-'' \<and> s ! 23 = CHR ''-'' \<and>
      list_all lower_hex (take 8 s) \<and>
      list_all lower_hex (take 4 (drop 9 s)) \<and>
      list_all lower_hex (take 4 (drop 14 s)) \<and>
      list_all lower_hex (take 4 (drop 19 s)) \<and>
      list_all lower_hex (drop 24 s))"

definition is_digit :: "char \<Rightarrow> bool" where
  "is_digit c = (CHR ''0'' \<le> c \<and> c \<le> CHR ''9'')"

definition digit_value :: "char \<Rightarrow> nat" where
  "digit_value c = of_char c - 48"

definition decimal_value :: "string \<Rightarrow> nat" where
  "decimal_value w = foldl (\<lambda>a c. 10 * a + digit_value c) 0 w"

definition canonical_octet :: "string \<Rightarrow> bool" where
  "canonical_octet w =
     (w \<noteq> [] \<and> length w \<le> 3 \<and> list_all is_digit w \<and>
      (length w = 1 \<or> hd w \<noteq> CHR ''0'') \<and> decimal_value w \<le> 255)"

definition dotted_quad :: "string \<Rightarrow> bool" where
  "dotted_quad s =
     (length (split_on CHR ''.'' s) = 4 \<and> list_all canonical_octet (split_on CHR ''.'' s))"

section \<open>The join that the specification names\<close>

text \<open>
  The specification calls the computation of the request URL the standard URL join: the
  resolution of a reference against a base (RFC 3986, section 5.2). The definitions of this
  section state that resolution on the parts of the two texts, and follow the words of the
  specification and of the RFC, not the code, so that \<open>urljoin\<close> above, which works
  on the texts themselves, can be compared with them. The base is given by its scheme, its
  host, the directories of its path and the last segment of the path (empty when the path ends
  with a slash). The route is given by its path segments, whether it starts with a slash (an
  absolute path), whether it ends with a slash, and its optional parameters (after \<^verbatim>\<open>;\<close>),
  query (after \<^verbatim>\<open>?\<close>) and fragment (after \<^verbatim>\<open>#\<close>).
\<close>

text \<open>The characters of a path segment, of a host, and of the three optional parts of a
  route that contains no colon.\<close>

definition seg_char :: "char \<Rightarrow> bool" where
  "seg_char c = (\<not> c0_control_or_space c \<and> c \<notin> set ''/?#;:'')"

definition segment :: "string \<Rightarrow> bool" where
  "segment s = (s \<noteq> [] \<and> list_all seg_char s)"

definition host_char :: "char \<Rightarrow> bool" where
  "host_char c = (\<not> c0_control_or_space c \<and> c \<notin> set ''/?#[]'')"

definition param_char :: "char \<Rightarrow> bool" where
  "param_char c = (\<not> unsafe_url_byte c \<and> c \<notin> set ''/?#:'')"

definition query_char :: "char \<Rightarrow> bool" where
  "query_char c = (\<not> unsafe_url_byte c \<and> c \<notin> set ''#:'')"

definition fragment_char :: "char \<Rightarrow> bool" where
  "fragment_char c = (\<not> unsafe_url_byte c \<and> c \<noteq> CHR '':'')"

text \<open>Removal of dot segments (RFC 3986, section 5.2.4) on a list of segments: \<^verbatim>\<open>.\<close> is
  dropped, \<^verbatim>\<open>..\<close> drops the segment before it, if there is one. \<open>kept\<close> holds the
  segments kept so far, the last one first.\<close>

fun remove_dots :: "string list \<Rightarrow> string list \<Rightarrow> string list" where
  "remove_dots kept [] = rev kept"
| "remove_dots kept (seg # segs) =
     (if seg = ''..'' then remove_dots (tl kept) segs
      else if seg = ''.'' then remove_dots kept segs
      else remove_dots (seg # kept) segs)"

definition remove_dot_segments :: "string list \<Rightarrow> string list" where
  "remove_dot_segments segs = remove_dots [] segs"

text \<open>The text of a base path: a slash, each directory followed by a slash, and the last
  segment.\<close>

definition directory :: "string list \<Rightarrow> string" where
  "directory dirs = concat (map (\<lambda>d. d @ ''/'') dirs)"

definition base_path :: "string list \<Rightarrow> string \<Rightarrow> string" where
  "base_path dirs leaf = ''/'' @ directory dirs @ leaf"

text \<open>The text of a route. An optional part that is present is written after its
  delimiter, also when it is empty.\<close>

definition text_of :: "string option \<Rightarrow> string" where
  "text_of x = (case x of None \<Rightarrow> [] | Some t \<Rightarrow> t)"

definition part :: "char \<Rightarrow> string option \<Rightarrow> string" where
  "part c x = (case x of None \<Rightarrow> [] | Some t \<Rightarrow> c # t)"

definition path_text :: "bool \<Rightarrow> string list \<Rightarrow> bool \<Rightarrow> string" where
  "path_text absolute rs trailing =
     (if absolute then ''/'' else []) @ join ''/'' rs @ (if trailing then ''/'' else [])"

definition route_text ::
  "bool \<Rightarrow> string list \<Rightarrow> bool \<Rightarrow> string option \<Rightarrow> string option \<Rightarrow> string option \<Rightarrow> string" where
  "route_text absolute rs trailing p q f =
     (if absolute then ''/'' else []) @ join ''/'' rs @ (if trailing then ''/'' else []) @
     part CHR '';'' p @ part CHR ''?'' q @ part CHR ''#'' f"

text \<open>
  What follows the host in the joined URL. The segments of an absolute route replace the
  directories of the base, those of a relative route are appended to them (the last segment of
  the base is dropped); dot segments are removed; the path ends with a slash when the route
  does or when the last segment of the route is a dot segment; the parameters, the query and
  the fragment are those of the route, and an empty one is left out with its delimiter.
\<close>

definition kept_part :: "char \<Rightarrow> string option \<Rightarrow> string" where
  "kept_part c x = (case x of None \<Rightarrow> [] | Some t \<Rightarrow> if t = [] then [] else c # t)"

definition joined_text ::
  "string list \<Rightarrow> bool \<Rightarrow> string list \<Rightarrow> bool \<Rightarrow> string option \<Rightarrow> string option \<Rightarrow> string option \<Rightarrow> string" where
  "joined_text dirs absolute rs trailing p q f =
     ''/'' @ join ''/'' (remove_dot_segments ((if absolute then [] else dirs) @ rs) @
                         (if trailing \<or> last rs = ''.'' \<or> last rs = ''..'' then [[]] else [])) @
     kept_part CHR '';'' p @ kept_part CHR ''?'' q @ kept_part CHR ''#'' f"

section \<open>Fixtures\<close>

text \<open>Concrete arguments and environments at which the properties below are exercised.\<close>

definition example_key :: string where
  "example_key = ''01234567-89ab-cdef-0123-456789abcdef''"

definition example_secret :: string where
  "example_secret = ''s3cr3t0000''"

definition example_origin :: string where
  "example_origin = ''https://api.dome9.com/v2/''"

definition example_sdk :: Dome9APISDK where
  "example_sdk = \<lparr>origin = example_origin, clientAuth = (example_key, example_secret)\<rparr>"

definition example_world :: "Dome9APISDK world" where
  "example_world = \<lparr>obj = example_sdk, sent = []\<rparr>"

definition example_client :: Client where
  "example_client = \<lparr>baseURL = example_origin, legacyAuth = (example_key, example_secret)\<rparr>"

definition example_legacy_world :: "Client world" where
  "example_legacy_world = \<lparr>obj = example_client, sent = []\<rparr>"

definition any_host :: "string \<Rightarrow> bool" where
  "any_host h = True"

definition respond :: "response \<Rightarrow> http_call \<Rightarrow> net_result" where
  "respond r call = Response r"

definition refuse :: "string \<Rightarrow> http_call \<Rightarrow> net_result" where
  "refuse text call = ConnectionError text"

definition break_off :: "string \<Rightarrow> http_call \<Rightarrow> net_result" where
  "break_off exn call = OtherException exn"

definition not_found :: response where
  "not_found = \<lparr>status_code = 404, reason = ''Not Found'', content = ''{\"msg\":\"not found\"}'',
                 json_result = Decoded (PyDict [(''msg'', PyStr ''not found'')])\<rparr>"

definition no_content :: response where
  "no_content = \<lparr>status_code = 204, reason = ''No Content'', content = [],
                  json_result = DecodeValueError ''Expecting value: line 1 column 1 (char 0)''\<rparr>"

definition ok_users :: response where
  "ok_users = \<lparr>status_code = 200, reason = ''OK'', content = ''[]'', json_result = Decoded (PyList [])\<rparr>"

definition ok_not_json :: response where
  "ok_not_json = \<lparr>status_code = 200, reason = ''OK'', content = ''not-json'',
                   json_result = DecodeValueError ''Expecting value: line 1 column 1 (char 0)''\<rparr>"

definition ok_too_deep :: response where
  "ok_too_deep = \<lparr>status_code = 200, reason = ''OK'',
                   content = replicate 1000 CHR ''['' @ replicate 1000 CHR '']'',
                   json_result = DecodeOtherException ''RecursionError''\<rparr>"

definition status_299 :: response where
  "status_299 = \<lparr>status_code = 299, reason = ''Miscellaneous'', content = ''[]'',
                  json_result = Decoded (PyList [])\<rparr>"

definition serving :: "response \<Rightarrow> env" where
  "serving r = \<lparr>http = respond r, bracketed_host_ok = any_host\<rparr>"

definition refusing :: "string \<Rightarrow> env" where
  "refusing text = \<lparr>http = refuse text, bracketed_host_ok = any_host\<rparr>"

definition breaking :: "string \<Rightarrow> env" where
  "breaking exn = \<lparr>http = break_off exn, bracketed_host_ok = any_host\<rparr>"

section \<open>Properties\<close>

subsection \<open>Validators and statement order\<close>

lemma check_pattern_Some:
  "check_pattern p (Some s) False = (if match_anchored p s then Inr () else Inl ValueError)"
  by (simp add: check_pattern_def re_match_def)

lemma check_pattern_None: "check_pattern p None False = Inl TypeError"
  by (simp add: check_pattern_def re_match_def)

lemma check_pattern_optional:
  "check_pattern p arg True = (case arg of None \<Rightarrow> Inr () | Some s \<Rightarrow> check_pattern p (Some s) False)"
  by (simp add: check_pattern_def re_match_def split: option.splits)

lemma check_pattern_value_error:
  "check_pattern p (Some s) optional = Inr () \<or> check_pattern p (Some s) optional = Inl ValueError"
  by (simp add: check_pattern_def re_match_def)

lemma check_pattern_optional_value_error:
  "check_pattern p arg True = Inr () \<or> check_pattern p arg True = Inl ValueError"
  by (cases arg) (simp_all add: check_pattern_def re_match_def)

lemma checkIsNotNegative_value_error:
  "checkIsNotNegative (Some n) optional = Inr () \<or> checkIsNotNegative (Some n) optional = Inl ValueError"
  "checkIsNotNegative arg True = Inr () \<or> checkIsNotNegative arg True = Inl ValueError"
  by (cases arg; simp add: checkIsNotNegative_def)+

lemma checkIsPort_value_error:
  "checkIsPort (Some n) optional = Inr () \<or> checkIsPort (Some n) optional = Inl ValueError"
  "checkIsPort arg True = Inr () \<or> checkIsPort arg True = Inl ValueError"
  by (cases arg; simp add: checkIsPort_def)+

lemma checkIsPort_iff:
  "checkIsPort (Some p) optional = Inr () \<longleftrightarrow> 0 \<le> p \<and> p \<le> 65535"
  by (auto simp: checkIsPort_def)

text \<open>The statements of a method run in the order written: the call ends with the
  exception of the first one that raises.\<close>

lemma in_order_first_failure:
  "k < length cs \<Longrightarrow> \<forall>j<k. cs ! j = Inr () \<Longrightarrow> cs ! k = Inl err \<Longrightarrow> in_order cs = Inl err"
proof (induction cs arbitrary: k)
  case Nil
  then show ?case by simp
next
  case (Cons c cs)
  show ?case
  proof (cases k)
    case 0
    with Cons.prems show ?thesis by simp
  next
    case (Suc k')
    from Cons.prems(2) Suc have c: "c = Inr ()" by auto
    from Cons.prems Suc have "\<forall>j<k'. cs ! j = Inr ()" by auto
    with Cons.IH[of k'] Cons.prems Suc have "in_order cs = Inl err" by auto
    with c show ?thesis by simp
  qed
qed

lemma in_order_all_pass: "in_order cs = Inr () \<longleftrightarrow> list_all (\<lambda>c. c = Inr ()) cs"
  by (induction cs) (auto split: sum.splits)

subsection \<open>The object is never assigned to\<close>

lemma request_obj: "obj (snd (request e method route body params w)) = obj w"
  by (auto simp: request_def Let_def split: sum.splits net_result.splits json_outcome.splits)

lemma Client_request_obj: "obj (snd (Client_request e method route body params w)) = obj w"
  by (auto simp: Client_request_def Let_def split: sum.splits net_result.splits json_outcome.splits)

lemma returning_none_snd: "snd (returning_none res) = snd res"
  by (auto simp: returning_none_def split: sum.splits)

lemma exec_obj: "obj (snd (exec e op w)) = obj w"
  by (cases op)
     (auto simp: request_obj returning_none_snd getAllUsers_def getCloudAccountId_def
        updateAwsAccountCredentials_def updateCloudAccountID_def acquireAwsLease_def
        split: sum.splits)

lemma run_obj: "obj (run e ops w) = obj w"
  by (induction ops arbitrary: w) (auto simp: exec_obj)

subsection \<open>The fixtures\<close>

lemma example_key_is_uuid: "checkIsUUID (Some example_key) False = Inr ()"
  by code_simp

lemma example_secret_is_lowercase_alphanumeric:
  "checkOnlyContainsLowercaseAlphanumeric (Some example_secret) False = Inr ()"
  by code_simp

lemma example_origin_is_url: "checkIsHTTPURL (Some example_origin) False = Inr ()"
  by code_simp

lemma not_a_uuid: "checkIsUUID (Some ''not-a-uuid'') False = Inl ValueError"
  by code_simp

lemma example_user_url:
  "urljoin any_host example_origin ''user'' = Inr ''https://api.dome9.com/v2/user''"
  by code_simp

lemma example_world_url:
  "urljoin (bracketed_host_ok (serving r)) (origin (obj example_world)) ''user''
     = Inr ''https://api.dome9.com/v2/user''"
  "urljoin (bracketed_host_ok (refusing t)) (origin (obj example_world)) ''user''
     = Inr ''https://api.dome9.com/v2/user''"
  "urljoin (bracketed_host_ok (breaking t)) (origin (obj example_world)) ''user''
     = Inr ''https://api.dome9.com/v2/user''"
  "urljoin (bracketed_host_ok (serving r)) (baseURL (obj example_legacy_world)) ''user''
     = Inr ''https://api.dome9.com/v2/user''"
  "urljoin (bracketed_host_ok (refusing t)) (baseURL (obj example_legacy_world)) ''user''
     = Inr ''https://api.dome9.com/v2/user''"
  by (simp_all add: serving_def refusing_def breaking_def example_world_def example_sdk_def
        example_legacy_world_def example_client_def example_user_url)

subsection \<open>The matcher decides the language of the pattern\<close>

lemma conc_empty [simp]: "conc {} B = {}" "conc A {} = {}"
  by (auto simp: conc_def)

lemma conc_unit [simp]: "conc {[]} B = B" "conc A {[]} = A"
  by (auto simp: conc_def)

lemma nil_in_conc [simp]: "[] \<in> conc A B \<longleftrightarrow> [] \<in> A \<and> [] \<in> B"
  by (auto simp: conc_def)

lemma nullable_lang: "nullable r \<longleftrightarrow> [] \<in> lang r"
  by (induction r) (auto intro: star.star_empty)

lemma lang_times [simp]: "lang (times r s) = conc (lang r) (lang s)"
  by (induction r s rule: times.induct) simp_all

lemma lang_alt [simp]: "lang (alt r s) = lang r \<union> lang s"
  by (induction r s rule: alt.induct) simp_all

lemma quotient_conc:
  "left_quotient c (conc A B) =
     conc (left_quotient c A) B \<union> (if [] \<in> A then left_quotient c B else {})"
proof (rule set_eqI)
  fix w
  show "w \<in> left_quotient c (conc A B) \<longleftrightarrow>
        w \<in> conc (left_quotient c A) B \<union> (if [] \<in> A then left_quotient c B else {})"
  proof
    assume "w \<in> left_quotient c (conc A B)"
    then obtain u v where uv: "c # w = u @ v" "u \<in> A" "v \<in> B"
      by (auto simp: left_quotient_def conc_def)
    show "w \<in> conc (left_quotient c A) B \<union> (if [] \<in> A then left_quotient c B else {})"
    proof (cases u)
      case Nil
      with uv show ?thesis by (simp add: left_quotient_def)
    next
      case (Cons x u')
      with uv have "x = c" "w = u' @ v" by simp_all
      with uv Cons have "w \<in> conc (left_quotient c A) B"
        by (auto simp: conc_def left_quotient_def)
      then show ?thesis by simp
    qed
  next
    assume "w \<in> conc (left_quotient c A) B \<union> (if [] \<in> A then left_quotient c B else {})"
    then consider "w \<in> conc (left_quotient c A) B" | "[] \<in> A" "w \<in> left_quotient c B"
      by (auto split: if_splits)
    then show "w \<in> left_quotient c (conc A B)"
    proof cases
      case 1
      then obtain u v where "w = u @ v" "c # u \<in> A" "v \<in> B"
        by (auto simp: conc_def left_quotient_def)
      then have "c # w = (c # u) @ v" by simp
      with \<open>c # u \<in> A\<close> \<open>v \<in> B\<close> show ?thesis
        unfolding left_quotient_def conc_def by blast
    next
      case 2
      then have "c # w = [] @ (c # w)" "c # w \<in> B" by (simp_all add: left_quotient_def)
      with 2(1) show ?thesis unfolding left_quotient_def conc_def by blast
    qed
  qed
qed

lemma star_cons:
  assumes "x \<in> star A" and "x = c # w"
  shows "\<exists>u v. w = u @ v \<and> c # u \<in> A \<and> v \<in> star A"
  using assms
proof (induction arbitrary: w rule: star.induct)
  case star_empty
  then show ?case by simp
next
  case (star_step u v)
  show ?case
  proof (cases u)
    case Nil
    with star_step show ?thesis by simp
  next
    case (Cons y u')
    with star_step.prems have "y = c" "w = u' @ v" by simp_all
    with Cons star_step.hyps show ?thesis by blast
  qed
qed

lemma quotient_star: "left_quotient c (star A) = conc (left_quotient c A) (star A)"
proof (rule set_eqI)
  fix w
  show "w \<in> left_quotient c (star A) \<longleftrightarrow> w \<in> conc (left_quotient c A) (star A)"
  proof
    assume "w \<in> left_quotient c (star A)"
    then have "c # w \<in> star A" by (simp add: left_quotient_def)
    from star_cons[OF this refl] show "w \<in> conc (left_quotient c A) (star A)"
      by (auto simp: conc_def left_quotient_def)
  next
    assume "w \<in> conc (left_quotient c A) (star A)"
    then obtain u v where "w = u @ v" "c # u \<in> A" "v \<in> star A"
      by (auto simp: conc_def left_quotient_def)
    then have "(c # u) @ v \<in> star A" "c # w = (c # u) @ v"
      using star.star_step[of "c # u" A v] by simp_all
    then show "w \<in> left_quotient c (star A)" by (simp add: left_quotient_def)
  qed
qed

lemma lang_deriv: "lang (deriv c r) = left_quotient c (lang r)"
proof (induction r)
  case Zero
  show ?case by (simp add: left_quotient_def)
next
  case One
  show ?case by (simp add: left_quotient_def)
next
  case (Class pos items)
  show ?case by (auto simp: left_quotient_def)
next
  case (Times r s)
  then show ?case by (simp add: quotient_conc nullable_lang)
next
  case (Alt r s)
  then show ?case by (auto simp: left_quotient_def)
next
  case (Star r)
  then show ?case by (simp add: quotient_star)
qed

lemma matches_lang: "matches r s \<longleftrightarrow> s \<in> lang r"
proof (induction s arbitrary: r)
  case Nil
  show ?case by (simp add: matches_def nullable_lang)
next
  case (Cons c s)
  have "matches r (c # s) \<longleftrightarrow> matches (deriv c r) s" by (simp add: matches_def)
  also have "\<dots> \<longleftrightarrow> s \<in> lang (deriv c r)" by (rule Cons.IH)
  also have "\<dots> \<longleftrightarrow> c # s \<in> lang r" by (simp add: lang_deriv left_quotient_def)
  finally show ?case .
qed

subsection \<open>What the UUID validator accepts\<close>

lemma conc_class:
  "w \<in> conc {[c] | c. P c} B \<longleftrightarrow> (\<exists>a t. w = a # t \<and> P a \<and> t \<in> B)"
proof
  assume "w \<in> conc {[c] | c. P c} B"
  then obtain c v where "w = [c] @ v" "P c" "v \<in> B" by (auto simp: conc_def)
  then show "\<exists>a t. w = a # t \<and> P a \<and> t \<in> B" by simp
next
  assume "\<exists>a t. w = a # t \<and> P a \<and> t \<in> B"
  then obtain a t where "w = [a] @ t" "P a" "t \<in> B" by auto
  then show "w \<in> conc {[c] | c. P c} B" unfolding conc_def by blast
qed

lemma lang_rep_class:
  "lang (rep n (Class pos items)) = {w. length w = n \<and> list_all (in_class pos items) w}"
proof (induction n)
  case 0
  show ?case by auto
next
  case (Suc n)
  show ?case
  proof (rule set_eqI)
    fix w
    show "w \<in> lang (rep (Suc n) (Class pos items)) \<longleftrightarrow>
          w \<in> {w. length w = Suc n \<and> list_all (in_class pos items) w}"
      by (cases w) (auto simp: Suc conc_class)
  qed
qed

lemma conc_fixed_length:
  assumes "\<And>u. u \<in> A \<Longrightarrow> length u = n"
  shows "s \<in> conc A B \<longleftrightarrow> take n s \<in> A \<and> drop n s \<in> B"
proof
  assume "s \<in> conc A B"
  then obtain u v where "s = u @ v" "u \<in> A" "v \<in> B" by (auto simp: conc_def)
  with assms[of u] show "take n s \<in> A \<and> drop n s \<in> B" by simp
next
  assume "take n s \<in> A \<and> drop n s \<in> B"
  then have "take n s @ drop n s \<in> conc A B" unfolding conc_def by blast
  then show "s \<in> conc A B" by simp
qed

lemma lang_chr: "lang (chr c) = {[c]}"
  by (auto simp: chr_def in_class_def)

lemma take1_drop: "take (Suc 0) (drop n s) = [c] \<longleftrightarrow> n < length s \<and> s ! n = c"
proof (cases "n < length s")
  case True
  then have "drop n s = s ! n # drop (Suc n) s" by (simp add: Cons_nth_drop_Suc)
  with True show ?thesis by simp
next
  case False
  then show ?thesis by simp
qed

lemma lowerhex_class: "in_class True [Rng CHR ''0'' CHR ''9'', Rng CHR ''a'' CHR ''f''] = lower_hex"
  by (rule ext) (simp add: in_class_def lower_hex_def less_eq_char_def)

lemma conc_of_length:
  "s \<in> conc {w. length w = n \<and> list_all P w} B \<longleftrightarrow>
     n \<le> length s \<and> list_all P (take n s) \<and> drop n s \<in> B"
  using conc_fixed_length[of "{w. length w = n \<and> list_all P w}" n s B] by auto

lemma conc_of_char:
  "s \<in> conc {[c]} B \<longleftrightarrow> 0 < length s \<and> s ! 0 = c \<and> drop 1 s \<in> B"
  using conc_fixed_length[of "{[c]}" 1 s B] take1_drop[of 0 s c] by auto

lemma matches_uuid: "matches uuid_pattern s \<longleftrightarrow> canonical_uuid s"
proof -
  let ?H = "\<lambda>n. {w. length w = n \<and> list_all lower_hex w}"
  have H: "lang (rep n lowerhex) = ?H n" for n
    by (simp add: lowerhex_def lang_rep_class lowerhex_class)
  have "matches uuid_pattern s \<longleftrightarrow>
        s \<in> conc (?H 8) (conc {[CHR ''-'']} (conc (?H 4) (conc {[CHR ''-'']} (conc (?H 4)
              (conc {[CHR ''-'']} (conc (?H 4) (conc {[CHR ''-'']} (?H 12))))))))"
    by (simp add: matches_lang uuid_pattern_def H lang_chr)
  also have "\<dots> \<longleftrightarrow> canonical_uuid s"
    unfolding conc_of_length conc_of_char canonical_uuid_def
    by (auto simp: nth_via_drop)
  finally show ?thesis .
qed

lemma checkIsUUID_iff:
  "checkIsUUID (Some s) False = Inr () \<longleftrightarrow>
     canonical_uuid s \<or> (\<exists>u. s = u @ [newline] \<and> canonical_uuid u)"
proof -
  have "(s \<noteq> [] \<and> last s = newline \<and> canonical_uuid (butlast s)) \<longleftrightarrow>
        (\<exists>u. s = u @ [newline] \<and> canonical_uuid u)"
    by (metis append_butlast_last_id butlast_snoc last_snoc snoc_eq_iff_butlast)
  then show ?thesis
    by (simp add: checkIsUUID_def check_pattern_def re_match_def match_anchored_def matches_uuid)
qed

subsection \<open>What the IPv4 validator accepts\<close>

lemma char_eq_nat: "c = c' \<longleftrightarrow> (of_char c :: nat) = of_char c'"
  by (metis char_of_char)

lemma in_class_range:
  "in_class True [Rng lo hi] c \<longleftrightarrow> (of_char lo :: nat) \<le> of_char c \<and> (of_char c :: nat) \<le> of_char hi"
  by (simp add: in_class_def)

lemma in_class_char: "in_class True [Ch x] c \<longleftrightarrow> (of_char c :: nat) = of_char x"
  using char_eq_nat[of c x] by (simp add: in_class_def)

lemma not_zero_char: "a \<noteq> CHR ''0'' \<longleftrightarrow> (of_char a :: nat) \<noteq> 48"
  using char_eq_nat[of a "CHR ''0''"] by simp

lemma in_lang_class: "w \<in> {[c] | c. P c} \<longleftrightarrow> (\<exists>c. w = [c] \<and> P c)"
  by auto

lemma rep_2: "rep 2 r = Times r (Times r One)"
  by (simp add: numeral_2_eq_2)

lemma rep_3: "rep 3 r = Times r (Times r (Times r One))"
  by (simp add: numeral_3_eq_3)

lemma conc_assoc: "conc (conc A B) C = conc A (conc B C)"
proof (rule set_eqI)
  fix w
  show "w \<in> conc (conc A B) C \<longleftrightarrow> w \<in> conc A (conc B C)"
  proof
    assume "w \<in> conc (conc A B) C"
    then obtain a b c where "w = (a @ b) @ c" "a \<in> A" "b \<in> B" "c \<in> C"
      by (auto simp: conc_def)
    then have "w = a @ (b @ c)" "a \<in> A" "b @ c \<in> conc B C" by (auto simp: conc_def)
    then show "w \<in> conc A (conc B C)" unfolding conc_def by blast
  next
    assume "w \<in> conc A (conc B C)"
    then obtain a b c where "w = a @ (b @ c)" "a \<in> A" "b \<in> B" "c \<in> C"
      by (auto simp: conc_def)
    then have "w = (a @ b) @ c" "a @ b \<in> conc A B" "c \<in> C" by (auto simp: conc_def)
    then show "w \<in> conc (conc A B) C" unfolding conc_def by blast
  qed
qed

lemmas octet_lang_simps =
  octet_def digit_def chr_def str_def rep_2 conc_class conc_assoc in_lang_class
  in_class_range in_class_char

lemmas octet_spec_simps =
  canonical_octet_def is_digit_def less_eq_char_def decimal_value_def digit_value_def not_zero_char

lemma lang_octet: "w \<in> lang octet \<longleftrightarrow> canonical_octet w"
proof (cases w)
  case Nil
  then show ?thesis by (simp add: octet_lang_simps octet_spec_simps)
next
  case w1: (Cons a t)
  show ?thesis
  proof (cases t)
    case Nil
    with w1 show ?thesis by (simp add: octet_lang_simps octet_spec_simps) arith
  next
    case w2: (Cons b u)
    show ?thesis
    proof (cases u)
      case Nil
      with w1 w2 show ?thesis by (simp add: octet_lang_simps octet_spec_simps) arith
    next
      case w3: (Cons c v)
      show ?thesis
      proof (cases v)
        case Nil
        with w1 w2 w3 show ?thesis by (simp add: octet_lang_simps octet_spec_simps) arith
      next
        case (Cons d x)
        with w1 w2 w3 show ?thesis by (simp add: octet_lang_simps octet_spec_simps)
      qed
    qed
  qed
qed

lemma split_on_nonempty: "split_on c s \<noteq> []"
  by (induction s) (auto split: list.splits)

lemma join_cons: "ps \<noteq> [] \<Longrightarrow> join sep (p # ps) = p @ sep @ join sep ps"
  by (cases ps) simp_all

lemma join_split_on: "join [c] (split_on c s) = s"
proof (induction s)
  case Nil
  show ?case by simp
next
  case (Cons x xs)
  show ?case
  proof (cases "x = c")
    case True
    with Cons show ?thesis by (simp add: join_cons split_on_nonempty)
  next
    case False
    obtain y ys where y: "split_on c xs = y # ys"
      using split_on_nonempty[of c xs] by (cases "split_on c xs") auto
    with Cons have "join [c] (y # ys) = xs" by simp
    then have "join [c] ((x # y) # ys) = x # xs" by (cases ys) simp_all
    with False y show ?thesis by simp
  qed
qed

lemma split_on_no_sep: "c \<notin> set a \<Longrightarrow> split_on c a = [a]"
  by (induction a) auto

lemma split_on_append: "c \<notin> set a \<Longrightarrow> split_on c (a @ c # r) = a # split_on c r"
  by (induction a) auto

lemma octet_no_dot: "canonical_octet w \<Longrightarrow> CHR ''.'' \<notin> set w"
proof
  assume "canonical_octet w" and "CHR ''.'' \<in> set w"
  then have "is_digit CHR ''.''" by (auto simp: canonical_octet_def list_all_iff)
  then show False by (simp add: is_digit_def less_eq_char_def)
qed

lemma conc_dot:
  "s \<in> conc A (conc {[CHR ''.'']} B) \<longleftrightarrow> (\<exists>a r. s = a @ CHR ''.'' # r \<and> a \<in> A \<and> r \<in> B)"
proof
  assume "s \<in> conc A (conc {[CHR ''.'']} B)"
  then obtain a d r where "s = a @ d @ r" "a \<in> A" "d = [CHR ''.'']" "r \<in> B"
    by (auto simp: conc_def)
  then show "\<exists>a r. s = a @ CHR ''.'' # r \<and> a \<in> A \<and> r \<in> B" by auto
next
  assume "\<exists>a r. s = a @ CHR ''.'' # r \<and> a \<in> A \<and> r \<in> B"
  then obtain a r where s: "s = a @ ([CHR ''.''] @ r)" "a \<in> A" "r \<in> B" by auto
  then have "[CHR ''.''] @ r \<in> conc {[CHR ''.'']} B" unfolding conc_def by blast
  with s show "s \<in> conc A (conc {[CHR ''.'']} B)" unfolding conc_def by blast
qed

lemma lang_ip_pattern:
  "lang ip_pattern =
     conc (lang octet) (conc {[CHR ''.'']} (conc (lang octet) (conc {[CHR ''.'']}
       (conc (lang octet) (conc {[CHR ''.'']} (lang octet))))))"
  by (simp add: ip_pattern_def rep_3 conc_assoc lang_chr)

lemma matches_ip: "matches ip_pattern s \<longleftrightarrow> dotted_quad s"
proof -
  have "matches ip_pattern s \<longleftrightarrow>
        (\<exists>a b c d. s = a @ CHR ''.'' # b @ CHR ''.'' # c @ CHR ''.'' # d \<and>
           canonical_octet a \<and> canonical_octet b \<and> canonical_octet c \<and> canonical_octet d)"
    (is "_ \<longleftrightarrow> ?quad")
    unfolding matches_lang lang_ip_pattern conc_dot by (simp add: lang_octet) blast
  also have "?quad \<longleftrightarrow> dotted_quad s"
  proof
    assume ?quad
    then obtain a b c d where s: "s = a @ CHR ''.'' # b @ CHR ''.'' # c @ CHR ''.'' # d"
      and o: "canonical_octet a" "canonical_octet b" "canonical_octet c" "canonical_octet d"
      by blast
    from o have "split_on CHR ''.'' s = [a, b, c, d]"
      unfolding s by (simp add: split_on_append split_on_no_sep octet_no_dot)
    with o show "dotted_quad s" by (simp add: dotted_quad_def)
  next
    assume q: "dotted_quad s"
    then have "length (split_on CHR ''.'' s) = 4" by (simp add: dotted_quad_def)
    then obtain a b c d where parts: "split_on CHR ''.'' s = [a, b, c, d]"
      by (auto simp: length_Suc_conv eval_nat_numeral)
    have "s = join [CHR ''.''] (split_on CHR ''.'' s)" by (simp add: join_split_on)
    with parts have "s = a @ CHR ''.'' # b @ CHR ''.'' # c @ CHR ''.'' # d" by simp
    moreover from q parts have "canonical_octet a" "canonical_octet b" "canonical_octet c"
      "canonical_octet d" by (simp_all add: dotted_quad_def)
    ultimately show ?quad by blast
  qed
  finally show ?thesis .
qed

lemma checkIsIP_iff:
  "checkIsIP (Some s) False = Inr () \<longleftrightarrow>
     dotted_quad s \<or> (\<exists>u. s = u @ [newline] \<and> dotted_quad u)"
proof -
  have "(s \<noteq> [] \<and> last s = newline \<and> dotted_quad (butlast s)) \<longleftrightarrow>
        (\<exists>u. s = u @ [newline] \<and> dotted_quad u)"
    by (metis append_butlast_last_id butlast_snoc last_snoc snoc_eq_iff_butlast)
  then show ?thesis
    by (simp add: checkIsIP_def check_pattern_def re_match_def match_anchored_def matches_ip)
qed

subsection \<open>What the join computes\<close>

text \<open>\<open>urljoin\<close> is followed step by step on a base and a route given by their parts, and its
  result is compared with the join of the specification.\<close>

lemma before_append: "c \<notin> set a \<Longrightarrow> before c (a @ c # r) = a"
  unfolding before_def by (induction a) auto

lemma after_append: "c \<notin> set a \<Longrightarrow> after c (a @ c # r) = r"
  unfolding after_def by (induction a) auto

lemma before_absent: "c \<notin> set s \<Longrightarrow> before c s = s"
  unfolding before_def by (induction s) auto

lemma filter_all: "list_all P s \<Longrightarrow> filter P s = s"
  by (induction s) auto

lemma split_on_sep: "split_on c (a @ c # b) = split_on c a @ split_on c b"
proof (induction a)
  case Nil
  show ?case by simp
next
  case (Cons x a)
  obtain y ys where "split_on c a = y # ys"
    using split_on_nonempty[of c a] by (cases "split_on c a") auto
  with Cons show ?case by simp
qed

lemma split_on_join:
  "rs \<noteq> [] \<Longrightarrow> list_all (\<lambda>s. c \<notin> set s) rs \<Longrightarrow> split_on c (join [c] rs) = rs"
proof (induction rs)
  case Nil
  then show ?case by simp
next
  case (Cons r rs)
  show ?case
  proof (cases rs)
    case Nil
    with Cons.prems show ?thesis by (simp add: split_on_no_sep)
  next
    case (Cons r' rs')
    with Cons.prems Cons.IH have "split_on c (join [c] rs) = rs" by simp
    with Cons Cons.prems show ?thesis by (simp add: split_on_sep split_on_no_sep)
  qed
qed

lemma split_on_directory:
  "list_all (\<lambda>s. CHR ''/'' \<notin> set s) dirs \<Longrightarrow>
   split_on CHR ''/'' (directory dirs @ t) = dirs @ split_on CHR ''/'' t"
proof (induction dirs)
  case Nil
  show ?case by (simp add: directory_def)
next
  case (Cons d dirs)
  then have "split_on CHR ''/'' (directory dirs @ t) = dirs @ split_on CHR ''/'' t" by simp
  moreover have "directory (d # dirs) @ t = d @ CHR ''/'' # (directory dirs @ t)"
    by (simp add: directory_def)
  ultimately show ?case using Cons.prems by (simp add: split_on_sep split_on_no_sep)
qed

lemma seg_char_not:
  "seg_char c \<Longrightarrow> c \<noteq> CHR ''/'' \<and> c \<noteq> CHR ''?'' \<and> c \<noteq> CHR ''#'' \<and> c \<noteq> CHR '';'' \<and> c \<noteq> CHR '':''"
  by (simp add: seg_char_def)

lemma segment_no:
  assumes "segment s"
  shows "CHR ''/'' \<notin> set s" "CHR ''?'' \<notin> set s" "CHR ''#'' \<notin> set s" "CHR '';'' \<notin> set s"
        "CHR '':'' \<notin> set s" "s \<noteq> []"
proof -
  from assms have a: "\<And>c. c \<in> set s \<Longrightarrow> seg_char c" and b: "s \<noteq> []"
    by (simp_all add: segment_def list_all_iff)
  show "s \<noteq> []" by (rule b)
  show "CHR ''/'' \<notin> set s" using a seg_char_not by blast
  show "CHR ''?'' \<notin> set s" using a seg_char_not by blast
  show "CHR ''#'' \<notin> set s" using a seg_char_not by blast
  show "CHR '';'' \<notin> set s" using a seg_char_not by blast
  show "CHR '':'' \<notin> set s" using a seg_char_not by blast
qed

lemma unsafe_is_c0: "unsafe_url_byte c \<Longrightarrow> c0_control_or_space c"
  unfolding unsafe_url_byte_def c0_control_or_space_def
  by (elim disjE) simp_all

lemma seg_char_safe: "seg_char c \<Longrightarrow> \<not> unsafe_url_byte c"
  using unsafe_is_c0 by (auto simp: seg_char_def)

lemma takeWhile_stop: "list_all P a \<Longrightarrow> \<not> P x \<Longrightarrow> takeWhile P (a @ x # r) = a"
  by (induction a) auto

lemma dropWhile_stop: "list_all P a \<Longrightarrow> \<not> P x \<Longrightarrow> dropWhile P (a @ x # r) = x # r"
  by (induction a) auto

lemma host_char_facts:
  assumes "list_all host_char host"
  shows "list_all netloc_char host" "CHR ''['' \<notin> set host" "CHR '']'' \<notin> set host"
        "list_all (\<lambda>c. \<not> unsafe_url_byte c) host"
proof -
  from assms have a: "\<And>c. c \<in> set host \<Longrightarrow> host_char c" by (simp add: list_all_iff)
  have b: "\<And>c. host_char c \<Longrightarrow> netloc_char c \<and> c \<noteq> CHR ''['' \<and> c \<noteq> CHR '']''"
    by (simp add: host_char_def netloc_char_def)
  have c: "\<And>c. host_char c \<Longrightarrow> \<not> unsafe_url_byte c"
    using unsafe_is_c0 by (auto simp: host_char_def)
  show "list_all netloc_char host" using a b by (simp add: list_all_iff)
  show "CHR ''['' \<notin> set host" using a b by blast
  show "CHR '']'' \<notin> set host" using a b by blast
  show "list_all (\<lambda>c. \<not> unsafe_url_byte c) host" using a c by (simp add: list_all_iff)
qed

text \<open>The scheme of the base: one of the two that the URL validator lets through.\<close>

lemma scheme_facts:
  assumes "scheme = ''http'' \<or> scheme = ''https''"
  shows "CHR '':'' \<notin> set scheme" "scheme \<noteq> []" "ascii_alpha (hd scheme)"
        "list_all (\<lambda>c. c \<in> set scheme_chars) scheme" "map lower scheme = scheme"
        "\<not> c0_control_or_space (hd scheme)" "list_all (\<lambda>c. \<not> unsafe_url_byte c) scheme"
        "scheme \<in> set uses_relative" "scheme \<in> set uses_netloc" "scheme \<in> set uses_params"
        "list_all (\<lambda>c. \<not> c0_control_or_space c) scheme"
  using assms
  by (auto simp: ascii_alpha_def in_class_def scheme_chars_def lower_def c0_control_or_space_def
        unsafe_url_byte_def uses_relative_def uses_netloc_def uses_params_def)

lemma urlsplit_steps:
  assumes "url1 = filter (\<lambda>c. \<not> unsafe_url_byte c) (dropWhile c0_control_or_space url0)"
      and "scheme1 = filter (\<lambda>c. \<not> unsafe_url_byte c)
                      (rev (dropWhile c0_control_or_space (rev (dropWhile c0_control_or_space scheme0))))"
      and "has_scheme = (CHR '':'' \<in> set url1 \<and> before CHR '':'' url1 \<noteq> [] \<and> ascii_alpha (hd url1) \<and>
                        list_all (\<lambda>c. c \<in> set scheme_chars) (before CHR '':'' url1))"
      and "scheme = (if has_scheme then map lower (before CHR '':'' url1) else scheme1)"
      and "url2 = (if has_scheme then after CHR '':'' url1 else url1)"
      and "has_netloc = (take 2 url2 = ''//'')"
      and "netloc = (if has_netloc then takeWhile netloc_char (drop 2 url2) else [])"
      and "url3 = (if has_netloc then dropWhile netloc_char (drop 2 url2) else url2)"
      and "url4 = (if CHR ''#'' \<in> set url3 then before CHR ''#'' url3 else url3)"
      and "fragment = (if CHR ''#'' \<in> set url3 then after CHR ''#'' url3 else [])"
      and "url5 = (if CHR ''?'' \<in> set url4 then before CHR ''?'' url4 else url4)"
      and "query = (if CHR ''?'' \<in> set url4 then after CHR ''?'' url4 else [])"
      and "CHR ''['' \<notin> set netloc" and "CHR '']'' \<notin> set netloc"
  shows "urlsplit ok url0 scheme0 = Inr (scheme, netloc, url5, query, fragment)"
proof -
  have "urlsplit ok url0 scheme0 =
        (if (CHR ''['' \<in> set netloc) \<noteq> (CHR '']'' \<in> set netloc) then Inl ValueError
         else if CHR ''['' \<in> set netloc \<and> CHR '']'' \<in> set netloc \<and>
                 \<not> ok (before CHR '']'' (after CHR ''['' netloc))
         then Inl ValueError
         else Inr (scheme, netloc, url5, query, fragment))"
    unfolding urlsplit_def Let_def assms(1-12) by (rule refl)
  with assms(13,14) show ?thesis by simp
qed

lemma urlsplit_base:
  assumes sch: "scheme = ''http'' \<or> scheme = ''https''"
      and host: "list_all host_char host"
      and bpath: "bpath = [] \<or> hd bpath = CHR ''/''" "CHR ''?'' \<notin> set bpath"
                 "CHR ''#'' \<notin> set bpath" "list_all (\<lambda>c. \<not> unsafe_url_byte c) bpath"
  shows "urlsplit ok (scheme @ ''://'' @ host @ bpath) [] = Inr (scheme, host, bpath, [], [])"
proof -
  let ?base = "scheme @ ''://'' @ host @ bpath"
  note s = scheme_facts[OF sch]
  note h = host_char_facts[OF host]
  have hd_base: "hd ?base = hd scheme" using s(2) by simp
  have strip: "dropWhile c0_control_or_space ?base = ?base"
    using s(2,6) by (cases scheme) simp_all
  have safe_slash: "\<not> unsafe_url_byte CHR ''/''" "\<not> unsafe_url_byte CHR '':''"
    by (simp_all add: unsafe_url_byte_def)
  have "list_all (\<lambda>c. \<not> unsafe_url_byte c) ?base"
    using s(7) h(4) bpath(4) safe_slash by simp
  then have safe: "filter (\<lambda>c. \<not> unsafe_url_byte c) ?base = ?base" by (rule filter_all)
  have shape: "?base = scheme @ CHR '':'' # (''//'' @ host @ bpath)" by simp
  have colon: "CHR '':'' \<in> set ?base" by simp
  have bef: "before CHR '':'' ?base = scheme"
    unfolding shape by (rule before_append[OF s(1)])
  have aft: "after CHR '':'' ?base = ''//'' @ host @ bpath"
    unfolding shape by (rule after_append[OF s(1)])
  have not_netloc: "\<not> netloc_char CHR ''/''" by (simp add: netloc_char_def)
  have netloc: "takeWhile netloc_char (host @ bpath) = host \<and>
                dropWhile netloc_char (host @ bpath) = bpath"
  proof (cases bpath)
    case Nil
    with h(1) show ?thesis by (simp add: list_all_iff)
  next
    case (Cons c rest)
    with bpath(1) have "bpath = CHR ''/'' # rest" by simp
    then show ?thesis
      using takeWhile_stop[OF h(1) not_netloc, of rest] dropWhile_stop[OF h(1) not_netloc, of rest]
      by simp
  qed
  note rest = netloc
  note noq = bpath(2,3)
  show ?thesis
  proof (rule urlsplit_steps[where ?url1.0 = ?base and ?scheme1.0 = "[]" and has_scheme = True
                               and ?url2.0 = "''//'' @ host @ bpath" and has_netloc = True
                               and ?url3.0 = bpath and ?url4.0 = bpath])
    show "?base = filter (\<lambda>c. \<not> unsafe_url_byte c) (dropWhile c0_control_or_space ?base)"
      by (simp only: strip safe)
    show "[] = filter (\<lambda>c. \<not> unsafe_url_byte c)
                 (rev (dropWhile c0_control_or_space (rev (dropWhile c0_control_or_space []))))"
      by simp
    show "True = (CHR '':'' \<in> set ?base \<and> before CHR '':'' ?base \<noteq> [] \<and> ascii_alpha (hd ?base) \<and>
                  list_all (\<lambda>c. c \<in> set scheme_chars) (before CHR '':'' ?base))"
      using colon s(2,3,4) by (simp only: bef hd_base) simp
    show "scheme = (if True then map lower (before CHR '':'' ?base) else [])"
      by (simp only: bef s(5) if_True)
    show "''//'' @ host @ bpath = (if True then after CHR '':'' ?base else ?base)"
      by (simp only: aft if_True)
    show "True = (take 2 (''//'' @ host @ bpath) = ''//'')" by simp
    show "host = (if True then takeWhile netloc_char (drop 2 (''//'' @ host @ bpath)) else [])"
      using netloc by simp
    show "bpath = (if True then dropWhile netloc_char (drop 2 (''//'' @ host @ bpath)) else ''//'' @ host @ bpath)"
      using rest by simp
    show "bpath = (if CHR ''#'' \<in> set bpath then before CHR ''#'' bpath else bpath)"
      using noq by simp
    show "[] = (if CHR ''#'' \<in> set bpath then after CHR ''#'' bpath else [])"
      using noq by simp
    show "bpath = (if CHR ''?'' \<in> set bpath then before CHR ''?'' bpath else bpath)"
      using noq by simp
    show "[] = (if CHR ''?'' \<in> set bpath then after CHR ''?'' bpath else [])"
      using noq by simp
    show "CHR ''['' \<notin> set host" by (rule h(2))
    show "CHR '']'' \<notin> set host" by (rule h(3))
  qed
qed

lemma route_text_path:
  "route_text absolute rs trailing p q f =
     path_text absolute rs trailing @ part CHR '';'' p @ part CHR ''?'' q @ part CHR ''#'' f"
  by (simp add: route_text_def path_text_def)

lemma join_chars:
  "list_all segment rs \<Longrightarrow> list_all (\<lambda>c. c = CHR ''/'' \<or> seg_char c) (join ''/'' rs)"
proof (induction rs)
  case Nil
  show ?case by simp
next
  case (Cons r rs)
  then have r: "list_all seg_char r" and ih: "list_all (\<lambda>c. c = CHR ''/'' \<or> seg_char c) (join ''/'' rs)"
    by (simp_all add: segment_def)
  from r have r': "list_all (\<lambda>c. c = CHR ''/'' \<or> seg_char c) r" by (simp add: list_all_iff)
  show ?case
  proof (cases rs)
    case Nil
    with r' show ?thesis by simp
  next
    case (Cons a as)
    with r' ih show ?thesis by simp
  qed
qed

lemma path_chars:
  "list_all segment rs \<Longrightarrow> list_all (\<lambda>c. c = CHR ''/'' \<or> seg_char c) (path_text absolute rs trailing)"
  using join_chars[of rs] by (simp add: path_text_def)

lemma join_first:
  assumes "rs \<noteq> []" "list_all segment rs"
  shows "\<exists>x more. join ''/'' rs = x # more \<and> seg_char x"
proof -
  from assms obtain r rs' where rs: "rs = r # rs'" by (cases rs) auto
  with assms(2) have "segment r" by simp
  then obtain x r' where r: "r = x # r'" "seg_char x" by (cases r) (auto simp: segment_def)
  show ?thesis
  proof (cases rs')
    case Nil
    with rs r show ?thesis by simp
  next
    case (Cons a as)
    with rs r show ?thesis by simp
  qed
qed

lemma path_first:
  assumes "rs \<noteq> []" "list_all segment rs"
  shows "\<exists>x more. seg_char x \<and>
           path_text absolute rs trailing = (if absolute then CHR ''/'' # x # more else x # more)"
proof -
  from join_first[OF assms] obtain x more where "join ''/'' rs = x # more" "seg_char x" by blast
  then show ?thesis by (auto simp: path_text_def)
qed

lemma not_in_path:
  assumes "list_all segment rs" "\<not> seg_char c" "c \<noteq> CHR ''/''"
  shows "c \<notin> set (path_text absolute rs trailing)"
  using path_chars[OF assms(1), of absolute trailing] assms(2,3) by (auto simp: list_all_iff)

lemma splitparams_append:
  assumes "CHR '';'' \<notin> set path" "CHR ''/'' \<notin> set t"
  shows "splitparams (path @ CHR '';'' # t) = (path, t)"
proof (cases "CHR ''/'' \<in> set path")
  case False
  with assms(2) have "CHR ''/'' \<notin> set (path @ CHR '';'' # t)" by simp
  then show ?thesis
    using assms(1) by (simp add: splitparams_def before_append after_append)
next
  case True
  then obtain u l where path: "path = u @ CHR ''/'' # l" "CHR ''/'' \<notin> set l"
    by (meson split_list_last)
  let ?a = "path @ CHR '';'' # t"
  have no: "CHR '';'' \<notin> set l" using assms(1) path(1) by simp
  have "rev ?a = (rev t @ CHR '';'' # rev l) @ CHR ''/'' # rev u" using path(1) by simp
  moreover have "list_all (\<lambda>x. x \<noteq> CHR ''/'') (rev t @ CHR '';'' # rev l)"
    using assms(2) path(2) by (auto simp: list_all_iff)
  ultimately have "takeWhile (\<lambda>x. x \<noteq> CHR ''/'') (rev ?a) = rev t @ CHR '';'' # rev l"
    by (simp only: takeWhile_stop)
  then have last_part: "rev (takeWhile (\<lambda>x. x \<noteq> CHR ''/'') (rev ?a)) = l @ CHR '';'' # t"
    by simp
  have upto: "take (length ?a - length (l @ CHR '';'' # t)) ?a = u @ ''/''"
    using path(1) by simp
  have slash: "CHR ''/'' \<in> set ?a" using True by simp
  have semi: "CHR '';'' \<in> set (l @ CHR '';'' # t)" by simp
  show ?thesis
    unfolding splitparams_def Let_def
    by (simp only: slash last_part upto semi if_True before_append[OF no] after_append[OF no])
       (simp add: path(1))
qed

lemma all_mono: "list_all P xs \<Longrightarrow> (\<And>x. P x \<Longrightarrow> Q x) \<Longrightarrow> list_all Q xs"
  by (simp add: list_all_iff)

lemma all_not_in: "list_all P xs \<Longrightarrow> \<not> P c \<Longrightarrow> c \<notin> set xs"
  by (auto simp: list_all_iff)

lemma part_chars: "list_all P (text_of x) \<Longrightarrow> P c \<Longrightarrow> list_all P (part c x)"
  by (cases x) (simp_all add: part_def text_of_def)

lemma split_part:
  assumes "c \<notin> set a"
  shows "(if c \<in> set (a @ part c x) then before c (a @ part c x) else a @ part c x) = a"
    and "(if c \<in> set (a @ part c x) then after c (a @ part c x) else []) = text_of x"
  using assms by (cases x; simp add: part_def text_of_def before_append after_append)+

lemma safe_chars:
  "\<not> unsafe_url_byte CHR ''/''" "\<not> unsafe_url_byte CHR '';''" "\<not> unsafe_url_byte CHR ''?''"
  "\<not> unsafe_url_byte CHR ''#''" "\<not> c0_control_or_space CHR ''/''"
  by (simp_all add: unsafe_url_byte_def c0_control_or_space_def)

lemma param_char_facts:
  "param_char c \<Longrightarrow> \<not> unsafe_url_byte c \<and> c \<noteq> CHR ''/'' \<and> c \<noteq> CHR ''?'' \<and> c \<noteq> CHR ''#'' \<and> c \<noteq> CHR '':''"
  by (simp add: param_char_def)

lemma query_char_facts:
  "query_char c \<Longrightarrow> \<not> unsafe_url_byte c \<and> c \<noteq> CHR ''#'' \<and> c \<noteq> CHR '':''"
  by (simp add: query_char_def)

lemma fragment_char_facts:
  "fragment_char c \<Longrightarrow> \<not> unsafe_url_byte c \<and> c \<noteq> CHR '':''"
  by (simp add: fragment_char_def)

lemma path_char_facts:
  "c = CHR ''/'' \<or> seg_char c \<Longrightarrow>
     \<not> unsafe_url_byte c \<and> c \<noteq> CHR ''?'' \<and> c \<noteq> CHR ''#'' \<and> c \<noteq> CHR '':'' \<and> c \<noteq> CHR '';''"
  using seg_char_not[of c] seg_char_safe[of c] safe_chars(1) by auto

lemma scheme_strip:
  assumes "scheme = ''http'' \<or> scheme = ''https''"
  shows "filter (\<lambda>c. \<not> unsafe_url_byte c)
           (rev (dropWhile c0_control_or_space (rev (dropWhile c0_control_or_space scheme)))) = scheme"
  using assms by (auto simp: c0_control_or_space_def unsafe_url_byte_def)

lemma urlsplit_route:
  assumes sch: "scheme = ''http'' \<or> scheme = ''https''"
      and rs: "rs \<noteq> []" "list_all segment rs"
      and p: "list_all param_char (text_of p)"
      and q: "list_all query_char (text_of q)"
      and f: "list_all fragment_char (text_of f)"
  shows "urlsplit ok (route_text absolute rs trailing p q f) scheme =
           Inr (scheme, [], path_text absolute rs trailing @ part CHR '';'' p, text_of q, text_of f)"
proof -
  let ?path = "path_text absolute rs trailing"
  let ?A = "?path @ part CHR '';'' p"
  let ?B = "?A @ part CHR ''?'' q"
  let ?R = "?B @ part CHR ''#'' f"
  have R: "route_text absolute rs trailing p q f = ?R" by (simp add: route_text_path)
  note pc = path_chars[OF rs(2), of absolute trailing]
  have colon_path: "list_all (\<lambda>c. c \<noteq> CHR '':'') ?path" using pc by (rule all_mono) (use path_char_facts in blast)
  have colon_p: "list_all (\<lambda>c. c \<noteq> CHR '':'') (part CHR '';'' p)"
  proof (rule part_chars)
    show "list_all (\<lambda>c. c \<noteq> CHR '':'') (text_of p)" using p by (rule all_mono) (use param_char_facts in blast)
  qed simp
  have colon_q: "list_all (\<lambda>c. c \<noteq> CHR '':'') (part CHR ''?'' q)"
  proof (rule part_chars)
    show "list_all (\<lambda>c. c \<noteq> CHR '':'') (text_of q)" using q by (rule all_mono) (use query_char_facts in blast)
  qed simp
  have colon_f: "list_all (\<lambda>c. c \<noteq> CHR '':'') (part CHR ''#'' f)"
  proof (rule part_chars)
    show "list_all (\<lambda>c. c \<noteq> CHR '':'') (text_of f)" using f by (rule all_mono) (use fragment_char_facts in blast)
  qed simp
  have "list_all (\<lambda>c. c \<noteq> CHR '':'') ?R" using colon_path colon_p colon_q colon_f by simp
  then have no_colon: "CHR '':'' \<notin> set ?R" by (rule all_not_in) simp
  have safe_path: "list_all (\<lambda>c. \<not> unsafe_url_byte c) ?path" using pc by (rule all_mono) (use path_char_facts in blast)
  have safe_p: "list_all (\<lambda>c. \<not> unsafe_url_byte c) (part CHR '';'' p)"
  proof (rule part_chars)
    show "list_all (\<lambda>c. \<not> unsafe_url_byte c) (text_of p)" using p by (rule all_mono) (use param_char_facts in blast)
  qed (rule safe_chars)
  have safe_q: "list_all (\<lambda>c. \<not> unsafe_url_byte c) (part CHR ''?'' q)"
  proof (rule part_chars)
    show "list_all (\<lambda>c. \<not> unsafe_url_byte c) (text_of q)" using q by (rule all_mono) (use query_char_facts in blast)
  qed (rule safe_chars)
  have safe_f: "list_all (\<lambda>c. \<not> unsafe_url_byte c) (part CHR ''#'' f)"
  proof (rule part_chars)
    show "list_all (\<lambda>c. \<not> unsafe_url_byte c) (text_of f)" using f by (rule all_mono) (use fragment_char_facts in blast)
  qed (rule safe_chars)
  have "list_all (\<lambda>c. \<not> unsafe_url_byte c) ?R" using safe_path safe_p safe_q safe_f by simp
  then have safe: "filter (\<lambda>c. \<not> unsafe_url_byte c) ?R = ?R" by (rule filter_all)
  have hash_path: "list_all (\<lambda>c. c \<noteq> CHR ''#'') ?path" using pc by (rule all_mono) (use path_char_facts in blast)
  have hash_p: "list_all (\<lambda>c. c \<noteq> CHR ''#'') (part CHR '';'' p)"
  proof (rule part_chars)
    show "list_all (\<lambda>c. c \<noteq> CHR ''#'') (text_of p)" using p by (rule all_mono) (use param_char_facts in blast)
  qed simp
  have hash_q: "list_all (\<lambda>c. c \<noteq> CHR ''#'') (part CHR ''?'' q)"
  proof (rule part_chars)
    show "list_all (\<lambda>c. c \<noteq> CHR ''#'') (text_of q)" using q by (rule all_mono) (use query_char_facts in blast)
  qed simp
  have "list_all (\<lambda>c. c \<noteq> CHR ''#'') ?B" using hash_path hash_p hash_q by simp
  then have no_hash: "CHR ''#'' \<notin> set ?B" by (rule all_not_in) simp
  have quest_path: "list_all (\<lambda>c. c \<noteq> CHR ''?'') ?path" using pc by (rule all_mono) (use path_char_facts in blast)
  have quest_p: "list_all (\<lambda>c. c \<noteq> CHR ''?'') (part CHR '';'' p)"
  proof (rule part_chars)
    show "list_all (\<lambda>c. c \<noteq> CHR ''?'') (text_of p)" using p by (rule all_mono) (use param_char_facts in blast)
  qed simp
  have "list_all (\<lambda>c. c \<noteq> CHR ''?'') ?A" using quest_path quest_p by simp
  then have no_quest: "CHR ''?'' \<notin> set ?A" by (rule all_not_in) simp
  from path_first[OF rs, of absolute trailing] obtain x more where
    x: "seg_char x" and first: "?path = (if absolute then CHR ''/'' # x # more else x # more)"
    by blast
  have x_facts: "\<not> c0_control_or_space x" "x \<noteq> CHR ''/''" using x by (simp_all add: seg_char_def)
  have strip: "dropWhile c0_control_or_space ?R = ?R"
    using x_facts(1) safe_chars(5) by (simp only: first) simp
  have not_netloc: "take 2 ?R \<noteq> ''//''"
    using x_facts(2) by (simp only: first) simp
  show ?thesis
    unfolding R
  proof (rule urlsplit_steps[where ?url1.0 = ?R and ?scheme1.0 = scheme and has_scheme = False
                               and ?url2.0 = ?R and has_netloc = False
                               and ?url3.0 = ?R and ?url4.0 = ?B])
    show "?R = filter (\<lambda>c. \<not> unsafe_url_byte c) (dropWhile c0_control_or_space ?R)"
      by (simp only: strip safe)
    show "scheme = filter (\<lambda>c. \<not> unsafe_url_byte c)
                 (rev (dropWhile c0_control_or_space (rev (dropWhile c0_control_or_space scheme))))"
      by (simp only: scheme_strip[OF sch])
    show "False = (CHR '':'' \<in> set ?R \<and> before CHR '':'' ?R \<noteq> [] \<and> ascii_alpha (hd ?R) \<and>
                  list_all (\<lambda>c. c \<in> set scheme_chars) (before CHR '':'' ?R))"
      using no_colon by blast
    show "scheme = (if False then map lower (before CHR '':'' ?R) else scheme)"
      by (simp only: if_False)
    show "?R = (if False then after CHR '':'' ?R else ?R)"
      by (simp only: if_False)
    show "False = (take 2 ?R = ''//'')" using not_netloc by blast
    show "[] = (if False then takeWhile netloc_char (drop 2 ?R) else [])"
      by (simp only: if_False)
    show "?R = (if False then dropWhile netloc_char (drop 2 ?R) else ?R)"
      by (simp only: if_False)
    show "?B = (if CHR ''#'' \<in> set ?R then before CHR ''#'' ?R else ?R)"
      by (rule split_part(1)[OF no_hash, symmetric])
    show "text_of f = (if CHR ''#'' \<in> set ?R then after CHR ''#'' ?R else [])"
      by (rule split_part(2)[OF no_hash, symmetric])
    show "?A = (if CHR ''?'' \<in> set ?B then before CHR ''?'' ?B else ?B)"
      by (rule split_part(1)[OF no_quest, symmetric])
    show "text_of q = (if CHR ''?'' \<in> set ?B then after CHR ''?'' ?B else [])"
      by (rule split_part(2)[OF no_quest, symmetric])
    show "CHR ''['' \<notin> set []" by simp
    show "CHR '']'' \<notin> set []" by simp
  qed
qed

lemma urlparse_route:
  assumes sch: "scheme = ''http'' \<or> scheme = ''https''"
      and rs: "rs \<noteq> []" "list_all segment rs"
      and p: "list_all param_char (text_of p)"
      and q: "list_all query_char (text_of q)"
      and f: "list_all fragment_char (text_of f)"
  shows "urlparse ok (route_text absolute rs trailing p q f) scheme =
           Inr (scheme, [], path_text absolute rs trailing, text_of p, text_of q, text_of f)"
proof -
  let ?path = "path_text absolute rs trailing"
  note split = urlsplit_route[OF assms, of ok absolute trailing]
  note pc = path_chars[OF rs(2), of absolute trailing]
  have "list_all (\<lambda>c. c \<noteq> CHR '';'') ?path" using pc by (rule all_mono) (use path_char_facts in blast)
  then have no_semi: "CHR '';'' \<notin> set ?path" by (rule all_not_in) simp
  have uses: "scheme \<in> set uses_params" by (rule scheme_facts(10)[OF sch])
  show ?thesis
  proof (cases p)
    case None
    then have "part CHR '';'' p = []" "text_of p = []" by (simp_all add: part_def text_of_def)
    with no_semi show ?thesis by (simp add: urlparse_def split)
  next
    case (Some t)
    then have pt: "part CHR '';'' p = CHR '';'' # t" "text_of p = t" by (simp_all add: part_def text_of_def)
    have "list_all (\<lambda>c. c \<noteq> CHR ''/'') t" using p unfolding pt(2) by (rule all_mono) (use param_char_facts in blast)
    then have "CHR ''/'' \<notin> set t" by (rule all_not_in) simp
    from splitparams_append[OF no_semi this] uses show ?thesis
      by (simp add: urlparse_def split pt)
  qed
qed

lemma directory_chars:
  "list_all segment dirs \<Longrightarrow> list_all (\<lambda>c. c = CHR ''/'' \<or> seg_char c) (directory dirs)"
proof (induction dirs)
  case Nil
  show ?case by (simp add: directory_def)
next
  case (Cons d dirs)
  then have d: "list_all seg_char d"
        and ih: "list_all (\<lambda>c. c = CHR ''/'' \<or> seg_char c) (directory dirs)"
    by (simp_all add: segment_def)
  from d have "list_all (\<lambda>c. c = CHR ''/'' \<or> seg_char c) d" by (rule all_mono) blast
  with ih show ?case by (simp add: directory_def)
qed

lemma base_path_chars:
  assumes "list_all segment dirs" "list_all seg_char leaf"
  shows "list_all (\<lambda>c. c = CHR ''/'' \<or> seg_char c) (base_path dirs leaf)"
proof -
  from assms(2) have "list_all (\<lambda>c. c = CHR ''/'' \<or> seg_char c) leaf" by (rule all_mono) blast
  with directory_chars[OF assms(1)] show ?thesis by (simp add: base_path_def)
qed

lemma base_path_facts:
  assumes "list_all segment dirs" "list_all seg_char leaf"
  shows "hd (base_path dirs leaf) = CHR ''/''"
        "CHR ''?'' \<notin> set (base_path dirs leaf)" "CHR ''#'' \<notin> set (base_path dirs leaf)"
        "list_all (\<lambda>c. \<not> unsafe_url_byte c) (base_path dirs leaf)"
        "CHR '';'' \<notin> set (base_path dirs leaf)"
proof -
  note bc = base_path_chars[OF assms]
  show "hd (base_path dirs leaf) = CHR ''/''" by (simp add: base_path_def)
  have "list_all (\<lambda>c. c \<noteq> CHR ''?'') (base_path dirs leaf)"
    using bc by (rule all_mono) (use path_char_facts in blast)
  then show "CHR ''?'' \<notin> set (base_path dirs leaf)" by (rule all_not_in) simp
  have "list_all (\<lambda>c. c \<noteq> CHR ''#'') (base_path dirs leaf)"
    using bc by (rule all_mono) (use path_char_facts in blast)
  then show "CHR ''#'' \<notin> set (base_path dirs leaf)" by (rule all_not_in) simp
  show "list_all (\<lambda>c. \<not> unsafe_url_byte c) (base_path dirs leaf)"
    using bc by (rule all_mono) (use path_char_facts in blast)
  have "list_all (\<lambda>c. c \<noteq> CHR '';'') (base_path dirs leaf)"
    using bc by (rule all_mono) (use path_char_facts in blast)
  then show "CHR '';'' \<notin> set (base_path dirs leaf)" by (rule all_not_in) simp
qed

lemma urlparse_base:
  assumes sch: "scheme = ''http'' \<or> scheme = ''https''"
      and host: "list_all host_char host"
      and bpath: "bpath = [] \<or> hd bpath = CHR ''/''" "CHR ''?'' \<notin> set bpath"
                 "CHR ''#'' \<notin> set bpath" "list_all (\<lambda>c. \<not> unsafe_url_byte c) bpath"
                 "CHR '';'' \<notin> set bpath"
  shows "urlparse ok (scheme @ ''://'' @ host @ bpath) [] = Inr (scheme, host, bpath, [], [], [])"
  using urlsplit_base[OF sch host bpath(1-4), of ok] bpath(5) by (simp add: urlparse_def)

lemma urljoin_steps:
  assumes "base \<noteq> []" "url \<noteq> []"
      and "urlparse ok base [] = Inr (scheme, bnetloc, bpath, bparams, bquery, bfragment)"
      and "urlparse ok url scheme = Inr (scheme, [], path, params, query, fragment)"
      and "scheme \<in> set uses_relative" "scheme \<in> set uses_netloc" "path \<noteq> []"
      and "base_parts0 = split_on CHR ''/'' bpath"
      and "base_parts = (if last base_parts0 \<noteq> [] then butlast base_parts0 else base_parts0)"
      and "joined = base_parts @ split_on CHR ''/'' path"
      and "segments =
             (if take 1 path = ''/'' then split_on CHR ''/'' path
              else if length joined < 2 then joined
              else hd joined # filter (\<lambda>seg. seg \<noteq> []) (butlast (tl joined)) @ [last joined])"
      and "resolved0 = resolve_segments [] segments"
      and "resolved = (if last segments = ''.'' \<or> last segments = ''..''
                       then resolved0 @ [[]] else resolved0)"
      and "joined_path = join ''/'' resolved"
  shows "urljoin ok base url =
           Inr (urlunparse scheme bnetloc (if joined_path = [] then ''/'' else joined_path)
                  params query fragment)"
  unfolding urljoin_def Let_def assms(8-14)
  by (simp only: assms(1-7) if_False if_True sum.case prod.case simp_thms)

lemma split_base_path:
  assumes "list_all segment dirs" "list_all seg_char leaf"
  shows "split_on CHR ''/'' (base_path dirs leaf) = [] # dirs @ [leaf]"
proof -
  have d: "list_all (\<lambda>s. CHR ''/'' \<notin> set s) dirs"
    using assms(1) by (rule all_mono) (rule segment_no(1))
  have f: "CHR ''/'' \<notin> set leaf" using assms(2) by (rule all_not_in) (simp add: seg_char_def)
  show ?thesis by (simp add: base_path_def split_on_directory[OF d] split_on_no_sep[OF f])
qed

lemma split_path_text:
  assumes "rs \<noteq> []" "list_all segment rs"
  shows "split_on CHR ''/'' (path_text absolute rs trailing) =
           (if absolute then [[]] else []) @ rs @ (if trailing then [[]] else [])"
proof -
  have n: "list_all (\<lambda>s. CHR ''/'' \<notin> set s) rs"
    using assms(2) by (rule all_mono) (rule segment_no(1))
  have j: "split_on CHR ''/'' (join ''/'' rs) = rs" using split_on_join[OF assms(1) n] by simp
  have t: "split_on CHR ''/'' (join ''/'' rs @ (if trailing then ''/'' else [])) =
             rs @ (if trailing then [[]] else [])"
    using j by (simp add: split_on_sep)
  show ?thesis using t by (simp add: path_text_def)
qed

lemma take1_path:
  assumes "rs \<noteq> []" "list_all segment rs"
  shows "(take 1 (path_text absolute rs trailing) = ''/'') = absolute"
proof -
  from path_first[OF assms, of absolute trailing] obtain x more where
    x: "seg_char x" and first: "path_text absolute rs trailing = (if absolute then CHR ''/'' # x # more else x # more)"
    by blast
  from x have "x \<noteq> CHR ''/''" by (simp add: seg_char_def)
  then show ?thesis by (simp add: first)
qed

lemma path_text_nonempty:
  assumes "rs \<noteq> []" "list_all segment rs"
  shows "path_text absolute rs trailing \<noteq> []"
  using path_first[OF assms, of absolute trailing] by (auto split: if_splits)

lemma nonempty_filter: "list_all segment xs \<Longrightarrow> filter (\<lambda>s. s \<noteq> []) xs = xs"
proof (rule filter_all)
  assume "list_all segment xs"
  then show "list_all (\<lambda>s. s \<noteq> []) xs" by (rule all_mono) (rule segment_no(6))
qed

lemma all_butlast: "list_all P xs \<Longrightarrow> list_all P (butlast xs)"
  by (auto simp: list_all_iff dest: in_set_butlastD)

lemma segments_of:
  assumes dirs: "list_all segment dirs" and rs: "rs \<noteq> []" "list_all segment rs"
      and fl: "filter (\<lambda>s. s \<noteq> []) fl = []"
      and tr: "tr = (if trailing then [[]] else [])"
      and sp: "sp = (if absolute then [[]] else []) @ rs @ tr"
      and joined: "joined = ([] # dirs @ fl) @ sp"
  shows "[] # ((if absolute then [] else dirs) @ rs) @ tr =
           (if absolute then sp
            else if length joined < 2 then joined
            else hd joined # filter (\<lambda>seg. seg \<noteq> []) (butlast (tl joined)) @ [last joined])"
proof (cases absolute)
  case True
  then show ?thesis by (simp add: sp)
next
  case False
  have sp': "sp = rs @ tr" using False by (simp add: sp)
  have j: "joined = [] # dirs @ fl @ rs @ tr" by (simp add: joined sp')
  have len: "\<not> length joined < 2" using rs(1) by (cases rs) (simp_all add: j)
  have hd: "hd joined = []" by (simp add: j)
  have bl: "butlast (tl joined) = dirs @ fl @ butlast (rs @ tr)"
    using rs(1) by (simp add: j butlast_append)
  have last: "last joined = last (rs @ tr)" using rs(1) by (simp add: j)
  note ffl = fl
  have fd: "filter (\<lambda>s. s \<noteq> []) dirs = dirs" by (rule nonempty_filter[OF dirs])
  have fb: "filter (\<lambda>s. s \<noteq> []) (butlast (rs @ tr)) @ [last (rs @ tr)] = rs @ tr"
  proof (cases trailing)
    case True
    then show ?thesis by (simp add: tr nonempty_filter[OF rs(2)])
  next
    case False
    have "filter (\<lambda>s. s \<noteq> []) (butlast rs) = butlast rs"
      by (rule nonempty_filter[OF all_butlast[OF rs(2)]])
    with False rs(1) show ?thesis by (simp add: tr)
  qed
  have "hd joined # filter (\<lambda>seg. seg \<noteq> []) (butlast (tl joined)) @ [last joined] =
          [] # dirs @ rs @ tr"
    unfolding hd bl last using ffl fd fb by simp
  with False len show ?thesis by simp
qed

lemma resolve_snoc: "resolve_segments m (a @ [[]]) = resolve_segments m a @ [[]]"
  by (induction a arbitrary: m) auto

lemma resolve_remove:
  "m = [] # rev kept \<or> m = rev kept \<Longrightarrow>
   resolve_segments m segs = [] # remove_dots kept segs \<or>
   resolve_segments m segs = remove_dots kept segs"
proof (induction segs arbitrary: m kept)
  case Nil
  then show ?case by simp
next
  case (Cons seg segs)
  show ?case
  proof (cases "seg = ''..''")
    case True
    have "butlast m = [] # rev (tl kept) \<or> butlast m = rev (tl kept)"
    proof (cases kept)
      case Nil
      with Cons.prems show ?thesis by auto
    next
      case (Cons k ks)
      with Cons.prems show ?thesis by (auto simp: butlast_append)
    qed
    from Cons.IH[OF this] True show ?thesis by simp
  next
    case False
    show ?thesis
    proof (cases "seg = ''.''")
      case True
      from Cons.IH[OF Cons.prems] True show ?thesis by simp
    next
      case dot: False
      have "m @ [seg] = [] # rev (seg # kept) \<or> m @ [seg] = rev (seg # kept)"
        using Cons.prems by auto
      from Cons.IH[OF this] False dot show ?thesis by simp
    qed
  qed
qed

lemma remove_dots_segments:
  "list_all segment kept \<Longrightarrow> list_all segment segs \<Longrightarrow> list_all segment (remove_dots kept segs)"
proof (induction segs arbitrary: kept)
  case Nil
  then show ?case by simp
next
  case (Cons seg segs)
  have "list_all segment (tl kept)" using Cons.prems(1) by (cases kept) simp_all
  with Cons show ?case by simp
qed

lemma final_path:
  assumes m: "m = [] # s \<or> m = s" and s: "list_all segment s" and e: "e = [] \<or> e = [[]]"
      and P: "P = (if join ''/'' (m @ e) = [] then ''/'' else join ''/'' (m @ e))"
  shows "P \<noteq> [] \<and> (if take 1 P \<noteq> ''/'' then ''/'' @ P else P) = ''/'' @ join ''/'' (s @ e)"
proof (cases "m = [] # s")
  case True
  show ?thesis
  proof (cases "s @ e")
    case Nil
    with True show ?thesis by (simp add: P)
  next
    case (Cons x xs)
    with True have "join ''/'' (m @ e) = ''/'' @ join ''/'' (s @ e)" by simp
    then show ?thesis by (simp add: P)
  qed
next
  case False
  with m have ms: "m = s" by simp
  show ?thesis
  proof (cases s)
    case Nil
    with ms e show ?thesis by (auto simp: P)
  next
    case (Cons a as)
    with s have "segment a" by simp
    then obtain c a' where a: "a = c # a'" "seg_char c" by (cases a) (auto simp: segment_def)
    from a(2) have c: "c \<noteq> CHR ''/''" by (simp add: seg_char_def)
    have "\<exists>rest. join ''/'' (s @ e) = c # rest"
      unfolding Cons a(1) by (cases "as @ e") simp_all
    then obtain rest where j: "join ''/'' (s @ e) = c # rest" by blast
    show ?thesis using c by (simp add: P ms j)
  qed
qed

lemma kept_part_text: "kept_part c x = (if text_of x = [] then [] else c # text_of x)"
  by (cases x) (simp_all add: kept_part_def text_of_def)

lemma urlunparse_http:
  assumes sch: "scheme = ''http'' \<or> scheme = ''https''" and P: "P \<noteq> []"
  shows "urlunparse scheme host P (text_of p) (text_of q) (text_of f) =
           scheme @ ''://'' @ host @ (if take 1 P \<noteq> ''/'' then ''/'' @ P else P) @
           kept_part CHR '';'' p @ kept_part CHR ''?'' q @ kept_part CHR ''#'' f"
proof -
  note s = scheme_facts(2,9)[OF sch]
  from P obtain c P' where P': "P = c # P'" by (cases P) auto
  show ?thesis
    using s by (simp add: urlunparse_def urlunsplit_def Let_def kept_part_text P')
qed

lemma urljoin_core:
  assumes sch: "scheme = ''http'' \<or> scheme = ''https''"
      and parsed: "urlparse ok base [] = Inr (scheme, host, bpath, [], [], [])"
      and base: "base \<noteq> []"
      and bp: "(if last (split_on CHR ''/'' bpath) \<noteq> [] then butlast (split_on CHR ''/'' bpath)
                else split_on CHR ''/'' bpath) = [] # dirs @ fl"
      and fl: "filter (\<lambda>s. s \<noteq> []) fl = []"
      and dirs: "list_all segment dirs"
      and rs: "rs \<noteq> []" "list_all segment rs"
      and p: "list_all param_char (text_of p)"
      and q: "list_all query_char (text_of q)"
      and f: "list_all fragment_char (text_of f)"
  shows "urljoin ok base (route_text absolute rs trailing p q f) =
         Inr (scheme @ ''://'' @ host @ joined_text dirs absolute rs trailing p q f)"
proof -
  let ?url = "route_text absolute rs trailing p q f"
  let ?path = "path_text absolute rs trailing"
  let ?tr = "if trailing then [[]] else []"
  let ?sp = "(if absolute then [[]] else []) @ rs @ ?tr"
  let ?A = "(if absolute then [] else dirs) @ rs"
  let ?S = "remove_dot_segments ?A"
  let ?M = "resolve_segments [[]] ?A"
  let ?e = "if trailing \<or> last rs = ''.'' \<or> last rs = ''..'' then [[]] else []"
  let ?P = "if join ''/'' (?M @ ?e) = [] then ''/'' else join ''/'' (?M @ ?e)"
  note s = scheme_facts[OF sch]
  have path: "?path \<noteq> []" by (rule path_text_nonempty[OF rs])
  then have url: "?url \<noteq> []" by (simp add: route_text_path)
  have M: "?M = [] # ?S \<or> ?M = ?S"
    unfolding remove_dot_segments_def by (rule resolve_remove) simp
  have A: "list_all segment ?A" using dirs rs(2) by simp
  have S: "list_all segment ?S"
    unfolding remove_dot_segments_def by (rule remove_dots_segments[OF _ A]) simp
  have e: "?e = [] \<or> ?e = [[]]" by simp
  from final_path[OF M S e refl]
  have P: "?P \<noteq> []"
   and P': "(if take 1 ?P \<noteq> ''/'' then ''/'' @ ?P else ?P) = ''/'' @ join ''/'' (?S @ ?e)"
    by blast+
  have "resolve_segments [[]] (?A @ ?tr) = ?M @ ?tr"
    using resolve_snoc[of "[[]]" ?A] by (cases trailing) simp_all
  then have res0: "resolve_segments [] ([] # ?A @ ?tr) = ?M @ ?tr"
    by simp
  have last_seg: "last ([] # ?A @ ?tr) = (if trailing then [] else last rs)"
    using rs(1) by simp
  have "urljoin ok base ?url = Inr (urlunparse scheme host ?P (text_of p) (text_of q) (text_of f))"
  proof (rule urljoin_steps[where bpath = bpath and path = ?path
                              and ?base_parts0.0 = "split_on CHR ''/'' bpath"
                              and base_parts = "[] # dirs @ fl"
                              and joined = "([] # dirs @ fl) @ ?sp"
                              and segments = "[] # ?A @ ?tr"
                              and ?resolved0.0 = "?M @ ?tr"
                              and resolved = "?M @ ?e"])
    show "base \<noteq> []" by (rule base)
    show "?url \<noteq> []" by (rule url)
    show "urlparse ok base [] = Inr (scheme, host, bpath, [], [], [])" by (rule parsed)
    show "urlparse ok ?url scheme = Inr (scheme, [], ?path, text_of p, text_of q, text_of f)"
      by (rule urlparse_route[OF sch rs p q f])
    show "scheme \<in> set uses_relative" by (rule s(8))
    show "scheme \<in> set uses_netloc" by (rule s(9))
    show "?path \<noteq> []" by (rule path)
    show "split_on CHR ''/'' bpath = split_on CHR ''/'' bpath" by (rule refl)
    show "[] # dirs @ fl =
            (if last (split_on CHR ''/'' bpath) \<noteq> [] then butlast (split_on CHR ''/'' bpath)
             else split_on CHR ''/'' bpath)"
      by (rule bp[symmetric])
    show "([] # dirs @ fl) @ ?sp = ([] # dirs @ fl) @ split_on CHR ''/'' ?path"
      by (simp only: split_path_text[OF rs])
    show "[] # ?A @ ?tr =
            (if take 1 ?path = ''/'' then split_on CHR ''/'' ?path
             else if length (([] # dirs @ fl) @ ?sp) < 2 then ([] # dirs @ fl) @ ?sp
             else hd (([] # dirs @ fl) @ ?sp) #
                  filter (\<lambda>seg. seg \<noteq> []) (butlast (tl (([] # dirs @ fl) @ ?sp))) @
                  [last (([] # dirs @ fl) @ ?sp)])"
      unfolding take1_path[OF rs] split_path_text[OF rs]
      by (rule segments_of[OF dirs rs fl refl refl refl])
    show "?M @ ?tr = resolve_segments [] ([] # ?A @ ?tr)"
      by (rule res0[symmetric])
    show "?M @ ?e = (if last ([] # ?A @ ?tr) = ''.'' \<or> last ([] # ?A @ ?tr) = ''..''
                     then (?M @ ?tr) @ [[]] else ?M @ ?tr)"
      unfolding last_seg by simp
    show "join ''/'' (?M @ ?e) = join ''/'' (?M @ ?e)" by (rule refl)
  qed
  also have "urlunparse scheme host ?P (text_of p) (text_of q) (text_of f) =
               scheme @ ''://'' @ host @ (if take 1 ?P \<noteq> ''/'' then ''/'' @ ?P else ?P) @
               kept_part CHR '';'' p @ kept_part CHR ''?'' q @ kept_part CHR ''#'' f"
    by (rule urlunparse_http[OF sch P])
  also have "\<dots> = scheme @ ''://'' @ host @ joined_text dirs absolute rs trailing p q f"
    unfolding P' by (simp add: joined_text_def)
  finally show ?thesis .
qed

text \<open>The join against a base that has a path.\<close>

lemma urljoin_path_base:
  assumes sch: "scheme = ''http'' \<or> scheme = ''https''"
      and host: "list_all host_char host"
      and dirs: "list_all segment dirs" and fl: "list_all seg_char leaf"
      and rs: "rs \<noteq> []" "list_all segment rs"
      and p: "list_all param_char (text_of p)"
      and q: "list_all query_char (text_of q)"
      and f: "list_all fragment_char (text_of f)"
  shows "urljoin ok (scheme @ ''://'' @ host @ base_path dirs leaf)
           (route_text absolute rs trailing p q f) =
         Inr (scheme @ ''://'' @ host @ joined_text dirs absolute rs trailing p q f)"
proof (rule urljoin_core[OF sch _ _ _ _ dirs rs p q f])
  note b = base_path_facts[OF dirs fl]
  show "urlparse ok (scheme @ ''://'' @ host @ base_path dirs leaf) [] =
          Inr (scheme, host, base_path dirs leaf, [], [], [])"
    using b(1) by (intro urlparse_base[OF sch host _ b(2-5)]) simp
  show "scheme @ ''://'' @ host @ base_path dirs leaf \<noteq> []" by simp
  show "(if last (split_on CHR ''/'' (base_path dirs leaf)) \<noteq> []
         then butlast (split_on CHR ''/'' (base_path dirs leaf))
         else split_on CHR ''/'' (base_path dirs leaf)) =
        [] # dirs @ (if leaf \<noteq> [] then [] else [[]])"
    unfolding split_base_path[OF dirs fl] by (simp add: butlast_append)
  show "filter (\<lambda>s. s \<noteq> []) (if leaf \<noteq> [] then [] else [[]]) = []" by simp
qed

text \<open>The join against a base without a path: the segments of the route follow the host.\<close>

lemma urljoin_bare_base:
  assumes sch: "scheme = ''http'' \<or> scheme = ''https''"
      and host: "list_all host_char host"
      and rs: "rs \<noteq> []" "list_all segment rs"
      and p: "list_all param_char (text_of p)"
      and q: "list_all query_char (text_of q)"
      and f: "list_all fragment_char (text_of f)"
  shows "urljoin ok (scheme @ ''://'' @ host) (route_text absolute rs trailing p q f) =
         Inr (scheme @ ''://'' @ host @ joined_text [] absolute rs trailing p q f)"
proof (rule urljoin_core[OF sch _ _ _ _ _ rs p q f, where bpath = "[]" and fl = "[]"])
  show "urlparse ok (scheme @ ''://'' @ host) [] = Inr (scheme, host, [], [], [], [])"
    using urlparse_base[OF sch host, of "[]" ok] by simp
  show "scheme @ ''://'' @ host \<noteq> []" by simp
  show "(if last (split_on CHR ''/'' []) \<noteq> [] then butlast (split_on CHR ''/'' [])
         else split_on CHR ''/'' []) = [] # [] @ []"
    by simp
  show "filter (\<lambda>s. s \<noteq> []) [] = []" by simp
  show "list_all segment []" by simp
qed

subsection \<open>The claims\<close>

text \<open>
  Claim C1. The dispatcher classifies a status code as success exactly when it lies in
  200..298 (299 is a failure): for a response whose status code lies in that range the
  outcome is decided by the body alone, and for a response whose status code lies outside
  it the dispatcher raises \<open>Dome9APIException\<close> whose message is the reason phrase,
  whose code is the status code and whose content is the raw body. This holds for the
  current dispatcher and for the legacy one.
\<close>

theorem request_status_classification:
  "(in_range 200 299 n \<longleftrightarrow> n \<in> {200..298}) \<and>
   (HTTP_OK_RANGE n \<longleftrightarrow> n \<in> {200..298}) \<and>
   (urljoin (bracketed_host_ok e) (origin (obj w)) route = Inr url \<and>
    http e (build_call (obj w) method url body params) = Response r \<longrightarrow>
      fst (request e method route body params w) =
        (if status_code r \<in> {200..298}
         then (if content r = [] then Inr PyNone
               else case json_result r of
                      Decoded v \<Rightarrow> Inr v
                    | DecodeValueError msg \<Rightarrow>
                        Inl (Dome9APIException msg (Some (status_code r)) (Some (content r)))
                    | DecodeOtherException exn \<Rightarrow> Inl (Propagated exn))
         else Inl (Dome9APIException (reason r) (Some (status_code r)) (Some (content r))))) \<and>
   (urljoin (bracketed_host_ok e) (baseURL (obj lw)) route = Inr url \<and>
    http e (Client_build_call (obj lw) method url body params) = Response r \<longrightarrow>
      fst (Client_request e method route body params lw) =
        (if status_code r \<in> {200..298}
         then (if content r = [] then Inr PyNone
               else case json_result r of
                      Decoded v \<Rightarrow> Inr v
                    | DecodeValueError msg \<Rightarrow>
                        Inl (Dome9APIException msg (Some (status_code r)) (Some (content r)))
                    | DecodeOtherException exn \<Rightarrow> Inl (Propagated exn))
         else Inl (Dome9APIException (reason r) (Some (status_code r)) (Some (content r)))))"
  by (auto simp: in_range_def HTTP_OK_RANGE_def request_def Client_request_def Let_def
        split: json_outcome.splits)

theorem request_status_classification_witness:
  "\<not> in_range 200 299 299 \<and>
   fst (request (serving not_found) GET ''user'' PyNone None example_world) =
     Inl (Dome9APIException ''Not Found'' (Some 404) (Some (content not_found))) \<and>
   fst (Client_request (serving status_299) GET ''user'' PyNone None example_legacy_world) =
     Inl (Dome9APIException ''Miscellaneous'' (Some 299) (Some ''[]''))"
proof -
  have a: "http (serving not_found) c = Response not_found" for c
    by (simp add: serving_def respond_def)
  have b: "http (serving status_299) c = Response status_299" for c
    by (simp add: serving_def respond_def)
  have c: "status_code not_found \<notin> {200..298}" "status_code status_299 \<notin> {200..298}"
    by (simp_all add: not_found_def status_299_def)
  from request_status_classification
         [of 299 "serving not_found" example_world "''user''" "''https://api.dome9.com/v2/user''"
             GET PyNone None not_found example_legacy_world]
       request_status_classification
         [of 299 "serving status_299" example_world "''user''" "''https://api.dome9.com/v2/user''"
             GET PyNone None status_299 example_legacy_world]
       a b c example_world_url
  show ?thesis by (simp add: not_found_def status_299_def)
qed

text \<open>
  Claim C2, as amended. For a response with a success status code: with an empty body
  the dispatcher returns no value (Python's \<^verbatim>\<open>None\<close>) and does not raise; with a
  non-empty body that decodes as JSON it returns the decoded value unchanged; with a
  non-empty body on which the decoder raises a \<^verbatim>\<open>ValueError\<close> it raises
  \<open>Dome9APIException\<close> whose message is the message of that error, whose code is the
  status code and whose content is the raw body; any other exception raised while the
  body is decoded reaches the caller as it is. This holds for the current dispatcher
  and for the legacy one.
\<close>

theorem request_success_body_handling:
  assumes "status_code r \<in> {200..298}"
  shows
  "(urljoin (bracketed_host_ok e) (origin (obj w)) route = Inr url \<and>
    http e (build_call (obj w) method url body params) = Response r \<longrightarrow>
      fst (request e method route body params w) =
        (if content r = [] then Inr PyNone
         else case json_result r of
                Decoded v \<Rightarrow> Inr v
              | DecodeValueError msg \<Rightarrow>
                  Inl (Dome9APIException msg (Some (status_code r)) (Some (content r)))
              | DecodeOtherException exn \<Rightarrow> Inl (Propagated exn))) \<and>
   (urljoin (bracketed_host_ok e) (baseURL (obj lw)) route = Inr url \<and>
    http e (Client_build_call (obj lw) method url body params) = Response r \<longrightarrow>
      fst (Client_request e method route body params lw) =
        (if content r = [] then Inr PyNone
         else case json_result r of
                Decoded v \<Rightarrow> Inr v
              | DecodeValueError msg \<Rightarrow>
                  Inl (Dome9APIException msg (Some (status_code r)) (Some (content r)))
              | DecodeOtherException exn \<Rightarrow> Inl (Propagated exn)))"
  using assms
  by (auto simp: in_range_def HTTP_OK_RANGE_def request_def Client_request_def Let_def
        split: json_outcome.splits)

theorem request_success_body_handling_witness:
  "fst (request (serving no_content) GET ''user'' PyNone None example_world) = Inr PyNone \<and>
   fst (request (serving ok_users) GET ''user'' PyNone None example_world) = Inr (PyList []) \<and>
   fst (Client_request (serving ok_not_json) GET ''user'' PyNone None example_legacy_world) =
     Inl (Dome9APIException ''Expecting value: line 1 column 1 (char 0)'' (Some 200) (Some ''not-json''))"
proof -
  have a: "http (serving x) c = Response x" for x c
    by (simp add: serving_def respond_def)
  have s: "status_code no_content \<in> {200..298}" "status_code ok_users \<in> {200..298}"
          "status_code ok_not_json \<in> {200..298}"
    by (simp_all add: no_content_def ok_users_def ok_not_json_def)
  from request_success_body_handling
         [OF s(1), of "serving no_content" example_world "''user''" "''https://api.dome9.com/v2/user''"
             GET PyNone None example_legacy_world]
       request_success_body_handling
         [OF s(2), of "serving ok_users" example_world "''user''" "''https://api.dome9.com/v2/user''"
             GET PyNone None example_legacy_world]
       request_success_body_handling
         [OF s(3), of "serving ok_not_json" example_world "''user''" "''https://api.dome9.com/v2/user''"
             GET PyNone None example_legacy_world]
       a example_world_url
  show ?thesis by (simp add: no_content_def ok_users_def ok_not_json_def)
qed

text \<open>The claim as stated fails: on a body nested too deeply the decoder raises
  \<^verbatim>\<open>RecursionError\<close>, which is not a \<^verbatim>\<open>ValueError\<close>; the dispatcher then neither returns a
  value nor raises \<open>Dome9APIException\<close>.\<close>

theorem request_propagates_decoder_exception:
  "fst (request (serving ok_too_deep) GET ''user'' PyNone None example_world)
     = Inl (Propagated ''RecursionError'')"
proof -
  have "http (serving ok_too_deep) c = Response ok_too_deep" for c
    by (simp add: serving_def respond_def)
  then show ?thesis
    by (simp add: request_def example_world_url Let_def in_range_def ok_too_deep_def)
qed

text \<open>
  Claim C3. Constructing a client from \<open>(key, secret, origin)\<close> succeeds only if the key
  passes the UUID validator, the secret passes the lowercase-alphanumeric validator and
  the origin passes the HTTP(S)-URL validator, and it does succeed when all three pass; if
  one of them fails the constructor raises \<^verbatim>\<open>ValueError\<close> (the specification's
  \<^verbatim>\<open>InvalidFormat\<close>). The constructor makes no call of the HTTP library in either case.
  The constructed object is the same after any run of operations. The legacy
  constructor, given its three validators, likewise succeeds only if all three return,
  makes no call, and the legacy dispatcher leaves its object as it was.
\<close>

theorem init_validates_and_config_is_kept:
  "(checkIsUUID (Some key) False = Inr () \<and>
    checkOnlyContainsLowercaseAlphanumeric (Some secret) False = Inr () \<and>
    checkIsHTTPURL (Some orig) False = Inr () \<longrightarrow>
      init key secret orig calls = (Inr \<lparr>origin = orig, clientAuth = (key, secret)\<rparr>, calls)) \<and>
   (init key secret orig calls = (Inr c, calls') \<longrightarrow>
      checkIsUUID (Some key) False = Inr () \<and>
      checkOnlyContainsLowercaseAlphanumeric (Some secret) False = Inr () \<and>
      checkIsHTTPURL (Some orig) False = Inr () \<and>
      c = \<lparr>origin = orig, clientAuth = (key, secret)\<rparr> \<and> calls' = calls) \<and>
   (checkIsUUID (Some key) False \<noteq> Inr () \<or>
    checkOnlyContainsLowercaseAlphanumeric (Some secret) False \<noteq> Inr () \<or>
    checkIsHTTPURL (Some orig) False \<noteq> Inr () \<longrightarrow>
      init key secret orig calls = (Inl ValueError, calls)) \<and>
   snd (init key secret orig calls) = calls \<and>
   obj (run e ops \<lparr>obj = c, sent = calls'\<rparr>) = c \<and>
   (Client_init v1 v2 v3 key secret orig calls = (Inr lc, lcalls) \<longrightarrow>
      v1 key = Inr () \<and> v2 secret = Inr () \<and> v3 orig = Inr () \<and>
      lc = \<lparr>baseURL = orig, legacyAuth = (key, secret)\<rparr> \<and> lcalls = calls) \<and>
   snd (Client_init v1 v2 v3 key secret orig calls) = calls \<and>
   obj (snd (Client_request e method route body params lw)) = obj lw"
  by (auto simp: init_def Client_init_def checkIsUUID_def checkOnlyContainsLowercaseAlphanumeric_def
        checkIsHTTPURL_def check_pattern_Some run_obj Client_request_obj
        split: sum.splits if_splits)

theorem init_validates_and_config_is_kept_witness:
  "init example_key example_secret example_origin [] = (Inr example_sdk, []) \<and>
   init ''not-a-uuid'' example_secret example_origin [] = (Inl ValueError, []) \<and>
   obj (run (serving ok_users)
          [GetAllUsers, GetCloudAccountId ''123456789012'',
           UpdateCloudAccountID example_key None None None None None None None None None]
          \<lparr>obj = example_sdk, sent = []\<rparr>) = example_sdk"
  using init_validates_and_config_is_kept
          [of example_key example_secret example_origin "[]" example_sdk "[]" "serving ok_users"
              "[GetAllUsers, GetCloudAccountId ''123456789012'',
                UpdateCloudAccountID example_key None None None None None None None None None]"]
        init_validates_and_config_is_kept
          [of "''not-a-uuid''" example_secret example_origin "[]"]
        example_key_is_uuid example_secret_is_lowercase_alphanumeric example_origin_is_url not_a_uuid
  by (simp add: example_sdk_def)

text \<open>
  Claim C4 (the UUID validator accepts exactly the canonical 8-4-4-4-12 lowercase
  hexadecimal strings). The validator returns successfully on a canonical UUID followed
  by a newline character, a string that is not of the 8-4-4-4-12 shape: \<^verbatim>\<open>$\<close> also
  holds before a final newline.
\<close>

theorem checkIsUUID_accepts_trailing_newline:
  "checkIsUUID (Some ''01234567-89ab-cdef-0123-456789abcdef\<newline>'') False = Inr ()"
  by code_simp


text \<open>
  The checks of \<^verbatim>\<open>acquireAwsLease\<close> are written in the order in which the arguments are
  declared. On arguments of the declared types each check either returns or raises
  \<^verbatim>\<open>ValueError\<close>, and when one of them does not return, the call ends with
  \<^verbatim>\<open>ValueError\<close> and no call of the HTTP library is made.
\<close>

lemma acquireAwsLease_checks_errors:
  assumes "c \<in> set (acquireAwsLease_checks cloudAccountId securityGroupId ip portFrom portTo duration accountId user)"
  shows "c = Inr () \<or> c = Inl ValueError"
proof -
  from assms consider
      "c = checkIsUUID (Some cloudAccountId) False"
    | "c = checkIsNotNegative (Some securityGroupId) False"
    | "c = checkIsIP (Some ip) False"
    | "c = checkIsPort (Some portFrom) False"
    | "c = checkIsPort portTo True"
    | "c = checkIsDuration duration True"
    | "c = checkIsNotNegative accountId True"
    | "c = checkIsEmail user True"
    by (auto simp: acquireAwsLease_checks_def)
  then show ?thesis
  proof cases
    case 1 then show ?thesis using check_pattern_value_error by (simp add: checkIsUUID_def)
  next
    case 2 then show ?thesis using checkIsNotNegative_value_error(1) by simp
  next
    case 3 then show ?thesis using check_pattern_value_error by (simp add: checkIsIP_def)
  next
    case 4 then show ?thesis using checkIsPort_value_error(1) by simp
  next
    case 5 then show ?thesis using checkIsPort_value_error(2) by simp
  next
    case 6 then show ?thesis using check_pattern_optional_value_error by (simp add: checkIsDuration_def)
  next
    case 7 then show ?thesis using checkIsNotNegative_value_error(2) by simp
  next
    case 8 then show ?thesis using check_pattern_optional_value_error by (simp add: checkIsEmail_def)
  qed
qed

lemma acquireAwsLease_first_failure:
  assumes "cs = acquireAwsLease_checks cloudAccountId securityGroupId ip portFrom portTo duration accountId user"
      and "k < length cs" and "\<forall>j<k. cs ! j = Inr ()" and "cs ! k \<noteq> Inr ()"
  shows "acquireAwsLease e cloudAccountId securityGroupId ip portFrom portTo protocol duration region
           accountId name user w = (Inl ValueError, w)"
proof -
  have "cs ! k \<in> set cs" using assms(2) by simp
  with assms(1,4) acquireAwsLease_checks_errors have "cs ! k = Inl ValueError" by blast
  with in_order_first_failure[OF assms(2,3)] have "in_order cs = Inl ValueError" by simp
  then show ?thesis using assms(1) by (simp add: acquireAwsLease_def)
qed

text \<open>
  Claim C5 (in every per-operation method the first failing check raises
  \<^verbatim>\<open>InvalidFormat\<close> and no request is dispatched). \<^verbatim>\<open>updateCloudAccountID\<close> called with a
  valid account id and every other parameter at its declared default \<^verbatim>\<open>None\<close> makes no
  call of the HTTP library, but the check that fails, \<^verbatim>\<open>_checkIsARN(arn)\<close>, raises
  \<^verbatim>\<open>TypeError\<close> and not \<^verbatim>\<open>ValueError\<close>: the optional \<^verbatim>\<open>arn\<close> is checked without
  \<^verbatim>\<open>optional=True\<close>.
\<close>

theorem updateCloudAccountID_defaults_raise_TypeError:
  "updateCloudAccountID e example_key None None None None None None None None None w
     = (Inl TypeError, w)"
  using example_key_is_uuid
  by (simp add: updateCloudAccountID_def checkIsUUID_def checkIsARN_def check_pattern_optional
        check_pattern_None)

text \<open>
  Claim C6, as amended. When the call of the HTTP library raises
  \<^verbatim>\<open>requests.ConnectionError\<close>, the dispatcher raises \<open>Dome9APIException\<close> whose message
  is the absolute URL, a space and the text of the \<^verbatim>\<open>ConnectionError\<close>, with no code and
  no content, after that one call. Any other exception raised by the call of the HTTP
  library reaches the caller as it is. This holds for the current dispatcher and for the
  legacy one. (Python records the caught \<^verbatim>\<open>ConnectionError\<close> as the \<^verbatim>\<open>__context__\<close> of the
  new exception; exception chaining is not part of this model.)
\<close>

theorem request_wraps_ConnectionError_only:
  "(urljoin (bracketed_host_ok e) (origin (obj w)) route = Inr url \<and>
    http e (build_call (obj w) method url body params) = ConnectionError text \<longrightarrow>
      request e method route body params w =
        (Inl (Dome9APIException (url @ '' '' @ text) None None),
         w\<lparr>sent := sent w @ [build_call (obj w) method url body params]\<rparr>)) \<and>
   (urljoin (bracketed_host_ok e) (origin (obj w)) route = Inr url \<and>
    http e (build_call (obj w) method url body params) = OtherException exn \<longrightarrow>
      fst (request e method route body params w) = Inl (Propagated exn)) \<and>
   (urljoin (bracketed_host_ok e) (baseURL (obj lw)) route = Inr url \<and>
    http e (Client_build_call (obj lw) method url body params) = ConnectionError text \<longrightarrow>
      Client_request e method route body params lw =
        (Inl (Dome9APIException (url @ '' '' @ text) None None),
         lw\<lparr>sent := sent lw @ [Client_build_call (obj lw) method url body params]\<rparr>)) \<and>
   (urljoin (bracketed_host_ok e) (baseURL (obj lw)) route = Inr url \<and>
    http e (Client_build_call (obj lw) method url body params) = OtherException exn \<longrightarrow>
      fst (Client_request e method route body params lw) = Inl (Propagated exn))"
  by (simp add: request_def Client_request_def Let_def)

theorem request_wraps_ConnectionError_only_witness:
  "request (refusing ''Connection refused'') GET ''user'' PyNone None example_world =
     (Inl (Dome9APIException ''https://api.dome9.com/v2/user Connection refused'' None None),
      example_world\<lparr>sent := [build_call example_sdk GET ''https://api.dome9.com/v2/user'' PyNone None]\<rparr>) \<and>
   fst (Client_request (refusing ''Connection refused'') GET ''user'' PyNone None example_legacy_world) =
     Inl (Dome9APIException ''https://api.dome9.com/v2/user Connection refused'' None None)"
proof -
  have a: "http (refusing ''Connection refused'') c = ConnectionError ''Connection refused''" for c
    by (simp add: refusing_def refuse_def)
  from request_wraps_ConnectionError_only
         [of "refusing ''Connection refused''" example_world "''user''"
             "''https://api.dome9.com/v2/user''" GET PyNone None "''Connection refused''"
             _ example_legacy_world]
       a example_world_url
  show ?thesis by (simp add: example_world_def example_legacy_world_def)
qed

text \<open>The claim as stated fails: a failure of the transfer that the HTTP library does not
  report as a \<^verbatim>\<open>ConnectionError\<close> (a connection broken while the body is read is
  \<^verbatim>\<open>ChunkedEncodingError\<close>) is not wrapped.\<close>

theorem request_propagates_other_exception:
  "fst (request (breaking ''ChunkedEncodingError'') GET ''user'' PyNone None example_world)
     = Inl (Propagated ''ChunkedEncodingError'')"
proof -
  have "http (breaking ''ChunkedEncodingError'') c = OtherException ''ChunkedEncodingError''" for c
    by (simp add: breaking_def break_off_def)
  then show ?thesis
    by (simp add: request_def example_world_url Let_def)
qed

text \<open>
  Claim C7 (the IPv4 validator accepts exactly the strings of four dot-separated decimal
  octets in 0..255). The validator returns successfully on \<^verbatim>\<open>1.2.3.4\<close> followed by a
  newline character, which is not such a string.
\<close>

theorem checkIsIP_accepts_trailing_newline:
  "checkIsIP (Some ''1.2.3.4\<newline>'') False = Inr ()"
  by code_simp

text \<open>
  Claim C8. The URL of the call that a dispatcher makes is \<^verbatim>\<open>urljoin\<close> of the client's
  origin and the route (and when \<^verbatim>\<open>urljoin\<close> raises, no call is made), and
  \<^verbatim>\<open>urljoin\<close> is the standard join: for every \<^verbatim>\<open>http\<close> or \<^verbatim>\<open>https\<close> origin made of a host
  and a path of segments (or no path at all), and every route made of one or more non-empty
  segments with optional parameters, query and fragment and no colon, the result is the
  scheme and the host of the origin followed by \<open>joined_text\<close>: the segments of an absolute
  route replace the path of the origin, those of a relative route follow its directories, dot
  segments are resolved, and the parameters, query and fragment of the route are kept. Joining
  \<^verbatim>\<open>https://api.example.com/v2/\<close> with \<^verbatim>\<open>CloudAccounts/123\<close> yields
  \<^verbatim>\<open>https://api.example.com/v2/CloudAccounts/123\<close>; with \<^verbatim>\<open>/CloudAccounts/123\<close> it yields
  \<^verbatim>\<open>https://api.example.com/CloudAccounts/123\<close>.
\<close>

theorem request_url_is_urljoin:
  "(urljoin (bracketed_host_ok e) (origin (obj w)) route = Inr url \<longrightarrow>
      sent (snd (request e method route body params w)) =
        sent w @ [build_call (obj w) method url body params] \<and>
      call_url (build_call (obj w) method url body params) = url) \<and>
   (urljoin (bracketed_host_ok e) (origin (obj w)) route = Inl err \<longrightarrow>
      request e method route body params w = (Inl err, w)) \<and>
   (urljoin (bracketed_host_ok e) (baseURL (obj lw)) route = Inr url \<longrightarrow>
      sent (snd (Client_request e method route body params lw)) =
        sent lw @ [Client_build_call (obj lw) method url body params] \<and>
      call_url (Client_build_call (obj lw) method url body params) = url) \<and>
   (urljoin (bracketed_host_ok e) (baseURL (obj lw)) route = Inl err \<longrightarrow>
      Client_request e method route body params lw = (Inl err, lw)) \<and>
   ((scheme = ''http'' \<or> scheme = ''https'') \<and> list_all host_char host \<and>
    list_all segment dirs \<and> list_all seg_char leaf \<and>
    rs \<noteq> [] \<and> list_all segment rs \<and> list_all param_char (text_of p) \<and>
    list_all query_char (text_of q) \<and> list_all fragment_char (text_of f) \<longrightarrow>
      urljoin ok (scheme @ ''://'' @ host @ base_path dirs leaf)
        (route_text absolute rs trailing p q f) =
      Inr (scheme @ ''://'' @ host @ joined_text dirs absolute rs trailing p q f) \<and>
      urljoin ok (scheme @ ''://'' @ host) (route_text absolute rs trailing p q f) =
      Inr (scheme @ ''://'' @ host @ joined_text [] absolute rs trailing p q f)) \<and>
   urljoin ok ''https://api.example.com/v2/'' ''CloudAccounts/123''
     = Inr ''https://api.example.com/v2/CloudAccounts/123'' \<and>
   urljoin ok ''https://api.example.com/v2/'' ''/CloudAccounts/123''
     = Inr ''https://api.example.com/CloudAccounts/123''"
proof -
  have a: "urljoin ok ''https://api.example.com/v2/'' ''CloudAccounts/123''
     = Inr ''https://api.example.com/v2/CloudAccounts/123''" by code_simp
  have b: "urljoin ok ''https://api.example.com/v2/'' ''/CloudAccounts/123''
     = Inr ''https://api.example.com/CloudAccounts/123''" by code_simp
  have law:
    "(scheme = ''http'' \<or> scheme = ''https'') \<and> list_all host_char host \<and>
     list_all segment dirs \<and> list_all seg_char leaf \<and>
     rs \<noteq> [] \<and> list_all segment rs \<and> list_all param_char (text_of p) \<and>
     list_all query_char (text_of q) \<and> list_all fragment_char (text_of f) \<longrightarrow>
       urljoin ok (scheme @ ''://'' @ host @ base_path dirs leaf)
         (route_text absolute rs trailing p q f) =
       Inr (scheme @ ''://'' @ host @ joined_text dirs absolute rs trailing p q f) \<and>
       urljoin ok (scheme @ ''://'' @ host) (route_text absolute rs trailing p q f) =
       Inr (scheme @ ''://'' @ host @ joined_text [] absolute rs trailing p q f)"
  proof (intro impI)
    assume h: "(scheme = ''http'' \<or> scheme = ''https'') \<and> list_all host_char host \<and>
     list_all segment dirs \<and> list_all seg_char leaf \<and>
     rs \<noteq> [] \<and> list_all segment rs \<and> list_all param_char (text_of p) \<and>
     list_all query_char (text_of q) \<and> list_all fragment_char (text_of f)"
    then have sch: "scheme = ''http'' \<or> scheme = ''https''" and host: "list_all host_char host"
      and dirs: "list_all segment dirs" and fl: "list_all seg_char leaf"
      and rs: "rs \<noteq> []" "list_all segment rs" and p: "list_all param_char (text_of p)"
      and q: "list_all query_char (text_of q)" and f: "list_all fragment_char (text_of f)"
      by blast+
    show "urljoin ok (scheme @ ''://'' @ host @ base_path dirs leaf)
            (route_text absolute rs trailing p q f) =
          Inr (scheme @ ''://'' @ host @ joined_text dirs absolute rs trailing p q f) \<and>
          urljoin ok (scheme @ ''://'' @ host) (route_text absolute rs trailing p q f) =
          Inr (scheme @ ''://'' @ host @ joined_text [] absolute rs trailing p q f)"
      using urljoin_path_base[OF sch host dirs fl rs p q f]
            urljoin_bare_base[OF sch host rs p q f]
      by blast
  qed
  have dispatch:
    "(urljoin (bracketed_host_ok e) (origin (obj w)) route = Inr url \<longrightarrow>
        sent (snd (request e method route body params w)) =
          sent w @ [build_call (obj w) method url body params] \<and>
        call_url (build_call (obj w) method url body params) = url) \<and>
     (urljoin (bracketed_host_ok e) (origin (obj w)) route = Inl err \<longrightarrow>
        request e method route body params w = (Inl err, w)) \<and>
     (urljoin (bracketed_host_ok e) (baseURL (obj lw)) route = Inr url \<longrightarrow>
        sent (snd (Client_request e method route body params lw)) =
          sent lw @ [Client_build_call (obj lw) method url body params] \<and>
        call_url (Client_build_call (obj lw) method url body params) = url) \<and>
     (urljoin (bracketed_host_ok e) (baseURL (obj lw)) route = Inl err \<longrightarrow>
        Client_request e method route body params lw = (Inl err, lw))"
    by (auto simp: request_def Client_request_def build_call_def Client_build_call_def Let_def
          split: net_result.splits sum.splits json_outcome.splits)
  from dispatch law a b show ?thesis by blast
qed

theorem request_url_is_urljoin_witness:
  "map call_url (sent (snd (request (serving ok_users) GET ''user'' PyNone None example_world)))
     = [''https://api.dome9.com/v2/user''] \<and>
   map call_url (sent (snd (Client_request (serving ok_users) GET ''user'' PyNone None example_legacy_world)))
     = [''https://api.dome9.com/v2/user''] \<and>
   urljoin any_host ''https://api.example.com/v2/index'' ''../CloudAccounts/./123;v=1?page=2#top''
     = Inr ''https://api.example.com/CloudAccounts/123;v=1?page=2#top'' \<and>
   urljoin any_host ''https://api.example.com'' ''../CloudAccounts/./123;v=1?page=2#top''
     = Inr ''https://api.example.com/CloudAccounts/123;v=1?page=2#top''"
  using request_url_is_urljoin
          [of "serving ok_users" example_world "''user''" "''https://api.dome9.com/v2/user''"
              GET PyNone None _ example_legacy_world,
           where scheme = "''https''" and host = "''api.example.com''" and dirs = "[''v2'']"
             and leaf = "''index''" and rs = "[''..'', ''CloudAccounts'', ''.'', ''123'']"
             and p = "Some ''v=1''" and q = "Some ''page=2''" and f = "Some ''top''"
             and ok = any_host and absolute = False and trailing = False]
        example_world_url
  by (simp add: example_world_def example_legacy_world_def segment_def seg_char_def host_char_def
        param_char_def query_char_def fragment_char_def c0_control_or_space_def unsafe_url_byte_def
        text_of_def part_def kept_part_def route_text_def joined_text_def base_path_def
        directory_def remove_dot_segments_def)

text \<open>
  Claim C9. The legacy dispatcher and the current dispatcher behave alike: on clients
  that hold the same origin and the same credentials, for every method, route, body,
  parameters and behaviour of the HTTP library, they make the same call (the same URL,
  verb, headers, credentials, body and parameters), classify the status code by the
  same range, and end with the same returned value or the same exception.
\<close>

theorem legacy_request_equivalent:
  assumes "baseURL (obj lw) = origin (obj w)" and "legacyAuth (obj lw) = clientAuth (obj w)"
      and "sent lw = sent w"
  shows "fst (Client_request e method route body params lw) = fst (request e method route body params w) \<and>
         sent (snd (Client_request e method route body params lw)) =
           sent (snd (request e method route body params w)) \<and>
         Client_build_call (obj lw) method url body params = build_call (obj w) method url body params \<and>
         HTTP_OK_RANGE = in_range 200 299"
proof -
  have calls: "\<And>u. Client_build_call (obj lw) method u body params = build_call (obj w) method u body params"
    using assms(2)
    by (simp add: Client_build_call_def build_call_def legacy_method_value_def DEFAULT_FORMAT_def
          json_headers_def)
  show ?thesis using assms(1,3)
    by (auto simp: calls request_def Client_request_def HTTP_OK_RANGE_def Let_def
          split: net_result.splits sum.splits json_outcome.splits)
qed

theorem legacy_request_equivalent_witness:
  "fst (Client_request (serving not_found) PUT ''user'' (PyStr ''x'') None example_legacy_world) =
     fst (request (serving not_found) PUT ''user'' (PyStr ''x'') None example_world) \<and>
   sent (snd (Client_request (serving not_found) PUT ''user'' (PyStr ''x'') None example_legacy_world)) =
     sent (snd (request (serving not_found) PUT ''user'' (PyStr ''x'') None example_world))"
proof -
  have "baseURL (obj example_legacy_world) = origin (obj example_world)"
       "legacyAuth (obj example_legacy_world) = clientAuth (obj example_world)"
       "sent example_legacy_world = sent example_world"
    by (simp_all add: example_legacy_world_def example_world_def example_client_def example_sdk_def)
  from legacy_request_equivalent[OF this] show ?thesis by simp
qed

text \<open>
  Claim C10, as amended. Each of the eight validators that match a regular expression,
  called with \<^verbatim>\<open>None\<close> and the optional flag false, raises \<^verbatim>\<open>TypeError\<close> and not
  \<^verbatim>\<open>ValueError\<close>. \<^verbatim>\<open>updateCloudAccountID\<close> called with \<^verbatim>\<open>arn=None\<close> and \<^verbatim>\<open>secret=None\<close>, an
  account id that passes the UUID check and an organizational unit id that is absent or
  passes it, raises \<^verbatim>\<open>TypeError\<close> before any request is dispatched; when one of those two
  earlier checks fails, it raises \<^verbatim>\<open>ValueError\<close> instead, also before any request.
\<close>

theorem None_raises_TypeError:
  "checkIsUUID None False = Inl TypeError \<and>
   checkOnlyContainsLowercaseAlphanumeric None False = Inl TypeError \<and>
   checkIsHTTPURL None False = Inl TypeError \<and>
   checkIsARN None False = Inl TypeError \<and>
   checkIsIP None False = Inl TypeError \<and>
   checkIsDuration None False = Inl TypeError \<and>
   checkIsEmail None False = Inl TypeError \<and>
   checkIsUUIDOr12Digits None False = Inl TypeError \<and>
   (checkIsUUID (Some cloudAccountId) False = Inr () \<and> checkIsUUID organizationalUnitId True = Inr () \<longrightarrow>
      updateCloudAccountID e cloudAccountId name fullProtection allowReadOnly organizationalUnitId
        organizationalUnitPath organizationalUnitName lambdaScanner None None w = (Inl TypeError, w)) \<and>
   (checkIsUUID (Some cloudAccountId) False \<noteq> Inr () \<or> checkIsUUID organizationalUnitId True \<noteq> Inr () \<longrightarrow>
      updateCloudAccountID e cloudAccountId name fullProtection allowReadOnly organizationalUnitId
        organizationalUnitPath organizationalUnitName lambdaScanner None None w = (Inl ValueError, w))"
  by (auto simp: checkIsUUID_def checkOnlyContainsLowercaseAlphanumeric_def checkIsHTTPURL_def
        checkIsARN_def checkIsIP_def checkIsDuration_def checkIsEmail_def checkIsUUIDOr12Digits_def
        check_pattern_None check_pattern_Some check_pattern_optional re_match_def
        updateCloudAccountID_def split: option.splits if_splits)

theorem None_raises_TypeError_witness:
  "updateCloudAccountID (serving ok_users) example_key None None None None None None None None None
     example_world = (Inl TypeError, example_world) \<and>
   updateCloudAccountID (serving ok_users) example_key None None None (Some ''not-a-uuid'') None None
     None None None example_world = (Inl ValueError, example_world)"
proof -
  have a: "checkIsUUID None True = Inr ()"
    by (simp add: checkIsUUID_def check_pattern_optional)
  have b: "checkIsUUID (Some ''not-a-uuid'') True \<noteq> Inr ()"
    using not_a_uuid by (simp add: checkIsUUID_def check_pattern_optional)
  from None_raises_TypeError
         [of example_key None "serving ok_users" None None None None None None example_world]
       None_raises_TypeError
         [of example_key "Some ''not-a-uuid''" "serving ok_users" None None None None None None
             example_world]
       a b example_key_is_uuid
  show ?thesis by simp
qed

text \<open>The claim as stated fails twice: with an account id that is not a UUID the call
  with the declared defaults ends with \<^verbatim>\<open>ValueError\<close>, raised by the first check; and
  \<^verbatim>\<open>_checkIsNotEmpty\<close>, a validator of strings that matches no regular expression,
  returns on \<^verbatim>\<open>None\<close>.\<close>

theorem updateCloudAccountID_invalid_id_raises_ValueError:
  "updateCloudAccountID (serving ok_users) ''not-a-uuid'' None None None None None None None None None
     example_world = (Inl ValueError, example_world) \<and>
   checkIsNotEmpty None False = Inr ()"
  using not_a_uuid by (simp add: updateCloudAccountID_def checkIsNotEmpty_def)

end
